theory Spec2Isabelle
  imports Main "HOL-Library.Word"
begin

unbundle bit_operations_syntax

section \<open>The analysis consumer of the static analyzer (AnalysisConsumer.cpp)\<close>

text \<open>
  A shallow embedding of the scheduling driver: the declaration collector
  (\<open>storeTopLevelDecls\<close>), the mode resolver (\<open>getModeForDecl\<close>), the skip and inlining
  policy of the call-graph pass (\<open>shouldSkipFunction\<close>, \<open>getInliningModeForFunction\<close>,
  \<open>HandleDeclsCallGraph\<close>), the engine invoker (\<open>HandleCode\<close>, \<open>RunPathSensitiveChecks\<close>,
  \<open>ActionExprEngine\<close>) and the driver \<open>HandleTranslationUnit\<close>.

  The collaborators the file only calls (source manager, checker manager, control-flow
  graph provider, liveness analysis, the symbolic-execution engine, the syntax-tree
  traversal, the call graph and its reverse post-order) are parameters, gathered in the
  record \<open>Collaborators\<close>. What the analysis does beyond updating the consumer's fields is
  recorded in a trace of events.
\<close>

subsection \<open>Declarations\<close>

text \<open>
  Modelled from the spec: the method family, a finite enumeration of naming
  conventions (\<open>ObjCMethodFamily\<close>, declared outside the file). The file compares a
  family with \<open>OMF_init\<close>, the initializer family, only.
\<close>

datatype ObjCMethodFamily =
    OMF_None | OMF_alloc | OMF_copy | OMF_init | OMF_mutableCopy | OMF_new
  | OMF_autorelease | OMF_dealloc | OMF_finalize | OMF_release | OMF_retain
  | OMF_retainCount | OMF_self | OMF_performSelector

text \<open>
  What the file distinguishes with \<open>isa\<close> and \<open>dyn_cast\<close>: a function (with its identifier,
  \<open>None\<close> when \<open>getIdentifier()\<close> is null), an Objective-C method (with its selector as a
  string and its method family), a block, and every other declaration (a container, a
  variable, ...).
\<close>

datatype DeclKind =
    FunctionDecl "string option"
  | ObjCMethodDecl string ObjCMethodFamily
  | BlockDecl
  | OtherDecl

text \<open>
  Modelled from the spec: a source location (\<open>SourceLocation\<close>, declared outside the
  file) is an unsigned identifier, and one location is the invalid one; here it is 0.
\<close>

type_synonym SourceLocation = "32 word"

definition isInvalid :: "SourceLocation \<Rightarrow> bool" where
  "isInvalid SL = (SL = 0)"

text \<open>
  A declaration: \<open>addr\<close> is its address (the sets \<open>SetOfConstDecls\<close> hold pointers and
  compare them), the other fields are what the file reads from the pointee.
\<close>

record Decl =
  addr :: nat
  kind :: DeclKind
  hasBody :: bool
  isThisDeclarationADefinition :: bool
  isDependentContext :: bool
  getLocation :: SourceLocation

definition isa_ObjCMethodDecl :: "Decl \<Rightarrow> bool" where
  "isa_ObjCMethodDecl D = (case kind D of ObjCMethodDecl sel fam \<Rightarrow> True | _ \<Rightarrow> False)"

definition getIdentifier :: "Decl \<Rightarrow> string option" where
  "getIdentifier D = (case kind D of FunctionDecl II \<Rightarrow> II | _ \<Rightarrow> None)"

subsection \<open>Options and collaborators\<close>

text \<open>\<open>AnalysisMode\<close> is \<open>unsigned\<close>, with the bit flags of the anonymous enum.\<close>

type_synonym AnalysisMode = "32 word"

definition AM_None :: AnalysisMode where "AM_None = 0"
definition AM_Syntax :: AnalysisMode where "AM_Syntax = 1"
definition AM_Path :: AnalysisMode where "AM_Path = 2"

datatype InliningModes = Inline_None | Inline_All

text \<open>The option \<open>InliningMode\<close>: \<open>All\<close> and \<open>NoRedundancy\<close> in the source.\<close>

datatype AnalysisInliningMode = All_Inlining | NoRedundancy

datatype GCMode = NonGC | GCOnly | HybridGC

record AnalyzerOptions =
  AnalyzeSpecificFunction :: string
  AnalyzeAll :: bool
  AnalyzerDisplayProgress :: bool
  InliningMode :: AnalysisInliningMode

record SourceManager =
  getExpansionLoc :: "SourceLocation \<Rightarrow> SourceLocation"
  isFromMainFile :: "SourceLocation \<Rightarrow> bool"
  isInSystemHeader :: "SourceLocation \<Rightarrow> bool"
  presumedLocIsValid :: "SourceLocation \<Rightarrow> bool"

text \<open>
  Modelled from the spec: the summaries of the analyzed functions (\<open>FunctionSummariesTy\<close>
  and its two getters, declared outside the file). A summary keeps, per declaration,
  the total number of basic blocks and the number of visited ones; the getters return
  the sums over all declarations, as \<open>unsigned\<close> values.
\<close>

record FunctionSummary =
  TotalBasicBlocks :: "32 word"
  NumVisitedBasicBlocks :: "32 word"

type_synonym FunctionSummariesTy = "(nat \<times> FunctionSummary) list"

definition getTotalNumBasicBlocks :: "FunctionSummariesTy \<Rightarrow> 32 word" where
  "getTotalNumBasicBlocks FS = sum_list (map (\<lambda>p. TotalBasicBlocks (snd p)) FS)"

definition getTotalNumVisitedBasicBlocks :: "FunctionSummariesTy \<Rightarrow> 32 word" where
  "getTotalNumVisitedBasicBlocks FS = sum_list (map (\<lambda>p. NumVisitedBasicBlocks (snd p)) FS)"

text \<open>
  The collaborators. \<open>getCFG\<close> gives the size of the control-flow graph, \<open>None\<close> when none
  can be built; \<open>RelaxedLiveVariables\<close> says whether the liveness analysis is available;
  \<open>engineCallees\<close> are the callees one engine run inserts into the callee accumulator,
  when it is given one, and \<open>engineSummaries\<close> what the run does to the summaries;
  \<open>nestedDecls\<close> are the declarations the syntax-tree traversal of a declaration visits
  after the declaration itself; \<open>deserializedByTraverse\<close> and \<open>deserializedByCallGraph\<close>
  are the declaration groups delivered back to the consumer while a declaration is
  traversed or added to the call graph; \<open>rpoNodes\<close> is the reverse post-order of the
  call graph built from the given declarations (\<open>None\<close> is the root node).
\<close>

record Collaborators =
  Opts :: AnalyzerOptions
  SM :: SourceManager
  shouldInlineCall :: bool
  getGC :: GCMode
  hasPathSensitiveCheckers :: bool
  hasErrorOccurred :: bool
  hasFatalErrorOccurred :: bool
  getCFG :: "Decl \<Rightarrow> 32 word option"
  RelaxedLiveVariables :: "Decl \<Rightarrow> bool"
  engineCallees :: "Decl \<Rightarrow> bool \<Rightarrow> InliningModes \<Rightarrow> nat set"
  engineSummaries :: "Decl \<Rightarrow> bool \<Rightarrow> InliningModes \<Rightarrow> FunctionSummariesTy \<Rightarrow> FunctionSummariesTy"
  nestedDecls :: "Decl \<Rightarrow> Decl list"
  deserializedByTraverse :: "Decl \<Rightarrow> Decl list list"
  deserializedByCallGraph :: "Decl \<Rightarrow> Decl list list"
  rpoNodes :: "Decl list \<Rightarrow> Decl option list"

subsection \<open>The consumer's state\<close>

datatype Event =
    RunCheckersOnTranslationUnitDecl
  | RunCheckersOnASTDecl nat
  | RunCheckersOnASTBody nat
  | CallTraverseDecl nat
  | AddToCallGraph nat
  | CallHandleCode nat AnalysisMode InliningModes
  | CallActionExprEngine nat bool InliningModes
  | ExecuteWorkList nat bool InliningModes
  | RunCheckersOnEndOfTranslationUnit

datatype Error = AssertionFailed string | IndexOutOfRange

text \<open>The statistics are \<open>unsigned\<close> counters.\<close>

record AnalysisConsumer =
  LocalTUDecls :: "Decl list"
  RecVisitorMode :: AnalysisMode
  FunctionSummaries :: FunctionSummariesTy
  NumFunctionTopLevel :: "32 word"
  NumFunctionsAnalyzed :: "32 word"
  NumBlocksInAnalyzedFunctions :: "32 word"
  PercentReachableBlocks :: "32 word"
  MaxCFGSize :: "32 word"
  trace :: "Event list"

definition logEvent :: "Event \<Rightarrow> AnalysisConsumer \<Rightarrow> AnalysisConsumer" where
  "logEvent e s = s\<lparr>trace := trace s @ [e]\<rparr>"

subsection \<open>The declaration collector\<close>

fun storeTopLevelDecls :: "Decl list \<Rightarrow> Decl list \<Rightarrow> Decl list" where
  "storeTopLevelDecls [] L = L"
| "storeTopLevelDecls (I # DG) L =
     (if isa_ObjCMethodDecl I then storeTopLevelDecls DG L
      else storeTopLevelDecls DG (L @ [I]))"

definition HandleTopLevelDecl :: "Decl list \<Rightarrow> AnalysisConsumer \<Rightarrow> bool \<times> AnalysisConsumer" where
  "HandleTopLevelDecl DG s = (True, s\<lparr>LocalTUDecls := storeTopLevelDecls DG (LocalTUDecls s)\<rparr>)"

definition HandleTopLevelDeclInObjCContainer :: "Decl list \<Rightarrow> AnalysisConsumer \<Rightarrow> AnalysisConsumer" where
  "HandleTopLevelDeclInObjCContainer DG s =
     s\<lparr>LocalTUDecls := storeTopLevelDecls DG (LocalTUDecls s)\<rparr>"

subsection \<open>Skipping and inlining in the call-graph pass\<close>

definition shouldSkipFunction :: "Decl \<Rightarrow> nat set \<Rightarrow> nat set \<Rightarrow> bool" where
  "shouldSkipFunction D Visited VisitedAsTopLevel =
     (if addr D \<in> VisitedAsTopLevel then True
      else if isa_ObjCMethodDecl D then False
      else addr D \<in> Visited)"

definition getInliningModeForFunction ::
  "Collaborators \<Rightarrow> Decl \<Rightarrow> nat set \<Rightarrow> Error + InliningModes" where
  "getInliningModeForFunction env D Visited =
     (let HowToInline = (if shouldInlineCall env then Inline_All else Inline_None) in
      if addr D \<in> Visited then
        (case kind D of
           ObjCMethodDecl sel fam \<Rightarrow>
             if fam \<noteq> OMF_init then Inr Inline_None else Inr HowToInline
         | _ \<Rightarrow> Inl (AssertionFailed ''We are only reanalyzing ObjCMethods.''))
      else Inr HowToInline)"

subsection \<open>The mode resolver\<close>

definition getFunctionName :: "Decl \<Rightarrow> string" where
  "getFunctionName D =
     (case kind D of
        ObjCMethodDecl sel fam \<Rightarrow> sel
      | FunctionDecl II \<Rightarrow> (case II of Some n \<Rightarrow> n | None \<Rightarrow> [])
      | _ \<Rightarrow> [])"

definition getModeForDecl :: "Collaborators \<Rightarrow> Decl \<Rightarrow> AnalysisMode \<Rightarrow> AnalysisMode" where
  "getModeForDecl env D Mode =
     (if AnalyzeSpecificFunction (Opts env) \<noteq> [] \<and>
         getFunctionName D \<noteq> AnalyzeSpecificFunction (Opts env)
      then AM_None
      else
        let SL = getExpansionLoc (SM env) (getLocation D) in
        if \<not> AnalyzeAll (Opts env) \<and> \<not> isFromMainFile (SM env) SL then
          (if isInvalid SL \<or> isInSystemHeader (SM env) SL then AM_None
           else Mode AND NOT AM_Path)
        else Mode)"

subsection \<open>The engine invoker\<close>

text \<open>
  \<open>DisplayFunction\<close> writes progress text to the error stream, which is not part of the
  state; what remains of it is its assertion on the mode.
\<close>

definition DisplayFunction :: "Collaborators \<Rightarrow> Decl \<Rightarrow> AnalysisMode \<Rightarrow> Error + unit" where
  "DisplayFunction env D Mode =
     (if \<not> AnalyzerDisplayProgress (Opts env) then Inr ()
      else if presumedLocIsValid (SM env) (getLocation D) then
        (if Mode = AM_Syntax then Inr ()
         else if Mode = AM_Path then Inr ()
         else if Mode = (AM_Syntax OR AM_Path) then Inr ()
         else Inl (AssertionFailed ''Unexpected mode!''))
      else Inr ())"

text \<open>
  The callee accumulator is a pointer to a set: \<open>None\<close> is the null pointer, and the
  engine inserts into the set only when it has one.
\<close>

definition ActionExprEngine ::
  "Collaborators \<Rightarrow> Decl \<Rightarrow> bool \<Rightarrow> InliningModes \<Rightarrow> nat set option \<Rightarrow> AnalysisConsumer
     \<Rightarrow> nat set option \<times> AnalysisConsumer" where
  "ActionExprEngine env D ObjCGCEnabled IMode VisitedCallees s0 =
     (let s = logEvent (CallActionExprEngine (addr D) ObjCGCEnabled IMode) s0 in
      if getCFG env D = None then (VisitedCallees, s)
      else if \<not> RelaxedLiveVariables env D then (VisitedCallees, s)
      else
        (map_option (\<lambda>S. S \<union> engineCallees env D ObjCGCEnabled IMode) VisitedCallees,
         logEvent (ExecuteWorkList (addr D) ObjCGCEnabled IMode)
           (s\<lparr>FunctionSummaries :=
                engineSummaries env D ObjCGCEnabled IMode (FunctionSummaries s)\<rparr>)))"

definition RunPathSensitiveChecks ::
  "Collaborators \<Rightarrow> Decl \<Rightarrow> InliningModes \<Rightarrow> nat set option \<Rightarrow> AnalysisConsumer
     \<Rightarrow> nat set option \<times> AnalysisConsumer" where
  "RunPathSensitiveChecks env D IMode Visited s =
     (case getGC env of
        NonGC \<Rightarrow> ActionExprEngine env D False IMode Visited s
      | GCOnly \<Rightarrow> ActionExprEngine env D True IMode Visited s
      | HybridGC \<Rightarrow>
          (case ActionExprEngine env D False IMode Visited s of
             (Visited1, s1) \<Rightarrow> ActionExprEngine env D True IMode Visited1 s1))"

definition HandleCode ::
  "Collaborators \<Rightarrow> Decl \<Rightarrow> AnalysisMode \<Rightarrow> InliningModes \<Rightarrow> nat set option \<Rightarrow> AnalysisConsumer
     \<Rightarrow> Error + (nat set option \<times> AnalysisConsumer)" where
  "HandleCode env D Mode0 IMode VisitedCallees s0 =
     (let s = logEvent (CallHandleCode (addr D) Mode0 IMode) s0 in
      if \<not> hasBody D then Inr (VisitedCallees, s)
      else
        let Mode = getModeForDecl env D Mode0 in
        if Mode = AM_None then Inr (VisitedCallees, s)
        else
          (case DisplayFunction env D Mode of
             Inl e \<Rightarrow> Inl e
           | Inr u \<Rightarrow>
               let s1 = (case getCFG env D of
                           Some CFGSize \<Rightarrow>
                             s\<lparr>MaxCFGSize :=
                                 (if MaxCFGSize s < CFGSize then CFGSize else MaxCFGSize s)\<rparr>
                         | None \<Rightarrow> s);
                   s2 = (if Mode AND AM_Syntax \<noteq> 0
                         then logEvent (RunCheckersOnASTBody (addr D)) s1 else s1)
               in
                 if Mode AND AM_Path \<noteq> 0 \<and> hasPathSensitiveCheckers env then
                   (case RunPathSensitiveChecks env D IMode VisitedCallees s2 of
                      (VC, s3) \<Rightarrow>
                        Inr (VC,
                             if IMode \<noteq> Inline_None
                             then s3\<lparr>NumFunctionsAnalyzed := NumFunctionsAnalyzed s3 + 1\<rparr>
                             else s3))
                 else Inr (VisitedCallees, s2)))"

subsection \<open>The visitors of the syntax pass\<close>

text \<open>\<open>StringRef::startswith\<close>: the prefix is no longer than the string and matches its start.\<close>

definition startswith :: "string \<Rightarrow> string \<Rightarrow> bool" where
  "startswith Str Prefix =
     (length Prefix \<le> length Str \<and> take (length Prefix) Str = Prefix)"

definition VisitDecl :: "Collaborators \<Rightarrow> Decl \<Rightarrow> AnalysisConsumer \<Rightarrow> AnalysisConsumer" where
  "VisitDecl env D s =
     (let Mode = getModeForDecl env D (RecVisitorMode s) in
      if Mode AND AM_Syntax \<noteq> 0 then logEvent (RunCheckersOnASTDecl (addr D)) s else s)"

text \<open>
  The three visitors call \<open>HandleCode\<close> with its default arguments: no inlining and a
  null callee accumulator.
\<close>

definition handleInVisitor ::
  "Collaborators \<Rightarrow> Decl \<Rightarrow> AnalysisConsumer \<Rightarrow> Error + AnalysisConsumer" where
  "handleInVisitor env D s =
     (if RecVisitorMode s = AM_Syntax \<or> shouldInlineCall env = False then
        (case HandleCode env D (RecVisitorMode s) Inline_None None s of
           Inl e \<Rightarrow> Inl e
         | Inr r \<Rightarrow> Inr (snd r))
      else Inl (AssertionFailed ''RecVisitorMode == AM_Syntax || Mgr->shouldInlineCall() == false''))"

definition VisitFunctionDecl ::
  "Collaborators \<Rightarrow> Decl \<Rightarrow> AnalysisConsumer \<Rightarrow> Error + AnalysisConsumer" where
  "VisitFunctionDecl env FD s =
     (if (case getIdentifier FD of Some Name \<Rightarrow> startswith Name ''__inline'' | None \<Rightarrow> False)
      then Inr s
      else if isThisDeclarationADefinition FD \<and> \<not> isDependentContext FD
      then handleInVisitor env FD s
      else Inr s)"

definition VisitObjCMethodDecl ::
  "Collaborators \<Rightarrow> Decl \<Rightarrow> AnalysisConsumer \<Rightarrow> Error + AnalysisConsumer" where
  "VisitObjCMethodDecl env MD s =
     (if isThisDeclarationADefinition MD then handleInVisitor env MD s else Inr s)"

definition VisitBlockDecl ::
  "Collaborators \<Rightarrow> Decl \<Rightarrow> AnalysisConsumer \<Rightarrow> Error + AnalysisConsumer" where
  "VisitBlockDecl env BD s = (if hasBody BD then handleInVisitor env BD s else Inr s)"

text \<open>
  The traversal of the syntax tree (\<open>RecursiveASTVisitor\<close>) calls, for each declaration
  it reaches, \<open>VisitDecl\<close> and then the visitor of the declaration's class; every visitor
  returns true, so the traversal is never cut short.
\<close>

definition WalkUpFrom ::
  "Collaborators \<Rightarrow> Decl \<Rightarrow> AnalysisConsumer \<Rightarrow> Error + AnalysisConsumer" where
  "WalkUpFrom env D s =
     (let s1 = VisitDecl env D s in
      case kind D of
        FunctionDecl II \<Rightarrow> VisitFunctionDecl env D s1
      | ObjCMethodDecl sel fam \<Rightarrow> VisitObjCMethodDecl env D s1
      | BlockDecl \<Rightarrow> VisitBlockDecl env D s1
      | OtherDecl \<Rightarrow> Inr s1)"

fun visitAll ::
  "Collaborators \<Rightarrow> Decl list \<Rightarrow> AnalysisConsumer \<Rightarrow> Error + AnalysisConsumer" where
  "visitAll env [] s = Inr s"
| "visitAll env (D # Ds) s =
     (case WalkUpFrom env D s of
        Inl e \<Rightarrow> Inl e
      | Inr s1 \<Rightarrow> visitAll env Ds s1)"

text \<open>
  Declaration groups delivered back to the consumer (\<open>HandleInterestingDecl\<close>) go through
  \<open>storeTopLevelDecls\<close>.
\<close>

definition deliverGroups :: "Decl list list \<Rightarrow> AnalysisConsumer \<Rightarrow> AnalysisConsumer" where
  "deliverGroups DGs s = fold (\<lambda>DG s1. snd (HandleTopLevelDecl DG s1)) DGs s"

definition TraverseDecl ::
  "Collaborators \<Rightarrow> Decl \<Rightarrow> AnalysisConsumer \<Rightarrow> Error + AnalysisConsumer" where
  "TraverseDecl env D s =
     (case visitAll env (D # nestedDecls env D) (logEvent (CallTraverseDecl (addr D)) s) of
        Inl e \<Rightarrow> Inl e
      | Inr s1 \<Rightarrow> Inr (deliverGroups (deserializedByTraverse env D) s1))"

subsection \<open>The two scheduling loops and the driver\<close>

text \<open>
  The loop of \<open>HandleTranslationUnit\<close> over the declaration store, by index, up to the
  length \<open>n\<close> read before the loop. An index outside the store is an error of the model
  (the source would read outside the container).
\<close>

function traverseLoop ::
  "Collaborators \<Rightarrow> nat \<Rightarrow> nat \<Rightarrow> AnalysisConsumer \<Rightarrow> Error + AnalysisConsumer" where
  "traverseLoop env i n s =
     (if i < n then
        (if i < length (LocalTUDecls s) then
           (case TraverseDecl env (LocalTUDecls s ! i) s of
              Inl e \<Rightarrow> Inl e
            | Inr s1 \<Rightarrow> traverseLoop env (i + 1) n s1)
         else Inl IndexOutOfRange)
      else Inr s)"
  by pat_completeness auto
termination
  by (relation "measure (\<lambda>(env, i, n, s). n - i)") auto

declare traverseLoop.simps [simp del]

text \<open>
  The first loop of \<open>HandleDeclsCallGraph\<close>: the declarations handed to the call graph
  are collected in \<open>CG\<close>, in the order of the calls.
\<close>

definition addToCallGraph ::
  "Collaborators \<Rightarrow> Decl \<Rightarrow> AnalysisConsumer \<Rightarrow> AnalysisConsumer" where
  "addToCallGraph env D s =
     deliverGroups (deserializedByCallGraph env D) (logEvent (AddToCallGraph (addr D)) s)"

function callGraphBuildLoop ::
  "Collaborators \<Rightarrow> nat \<Rightarrow> nat \<Rightarrow> Decl list \<Rightarrow> AnalysisConsumer
     \<Rightarrow> Error + (Decl list \<times> AnalysisConsumer)" where
  "callGraphBuildLoop env i n CG s =
     (if i < n then
        (if i < length (LocalTUDecls s) then
           callGraphBuildLoop env (i + 1) n (CG @ [LocalTUDecls s ! i])
             (addToCallGraph env (LocalTUDecls s ! i) s)
         else Inl IndexOutOfRange)
      else Inr (CG, s))"
  by pat_completeness auto
termination
  by (relation "measure (\<lambda>(env, i, n, CG, s). n - i)") auto

declare callGraphBuildLoop.simps [simp del]

text \<open>
  The second loop of \<open>HandleDeclsCallGraph\<close>, over the nodes in reverse post-order, with
  its two local sets. It returns them with the state.
\<close>

fun callGraphLoop ::
  "Collaborators \<Rightarrow> Decl option list \<Rightarrow> nat set \<Rightarrow> nat set \<Rightarrow> AnalysisConsumer
     \<Rightarrow> Error + (nat set \<times> nat set \<times> AnalysisConsumer)" where
  "callGraphLoop env [] Visited VisitedAsTopLevel s = Inr (Visited, VisitedAsTopLevel, s)"
| "callGraphLoop env (N # Ns) Visited VisitedAsTopLevel s =
     (let s1 = s\<lparr>NumFunctionTopLevel := NumFunctionTopLevel s + 1\<rparr> in
      case N of
        None \<Rightarrow> callGraphLoop env Ns Visited VisitedAsTopLevel s1
      | Some D \<Rightarrow>
          if shouldSkipFunction D Visited VisitedAsTopLevel
          then callGraphLoop env Ns Visited VisitedAsTopLevel s1
          else
            (case getInliningModeForFunction env D Visited of
               Inl e \<Rightarrow> Inl e
             | Inr IMode \<Rightarrow>
                 (case HandleCode env D AM_Path IMode
                         (if InliningMode (Opts env) = All_Inlining then None else Some {}) s1 of
                    Inl e \<Rightarrow> Inl e
                  | Inr r \<Rightarrow>
                      callGraphLoop env Ns
                        (Visited \<union> (case fst r of Some VisitedCallees \<Rightarrow> VisitedCallees | None \<Rightarrow> {}))
                        (insert (addr D) VisitedAsTopLevel) (snd r))))"

definition HandleDeclsCallGraph ::
  "Collaborators \<Rightarrow> nat \<Rightarrow> AnalysisConsumer \<Rightarrow> Error + (nat set \<times> nat set \<times> AnalysisConsumer)" where
  "HandleDeclsCallGraph env LocalTUDeclsSize s =
     (case callGraphBuildLoop env 0 LocalTUDeclsSize [] s of
        Inl e \<Rightarrow> Inl e
      | Inr r \<Rightarrow> callGraphLoop env (rpoNodes env (fst r)) {} {} (snd r))"

text \<open>The statistics computed at the end of \<open>HandleTranslationUnit\<close>.\<close>

definition countCoverage :: "AnalysisConsumer \<Rightarrow> AnalysisConsumer" where
  "countCoverage s =
     (let s1 = s\<lparr>NumBlocksInAnalyzedFunctions := getTotalNumBasicBlocks (FunctionSummaries s)\<rparr> in
      if NumBlocksInAnalyzedFunctions s1 > 0 then
        s1\<lparr>PercentReachableBlocks :=
             (getTotalNumVisitedBasicBlocks (FunctionSummaries s1) * 100)
               div NumBlocksInAnalyzedFunctions s1\<rparr>
      else s1)"

definition HandleTranslationUnit ::
  "Collaborators \<Rightarrow> AnalysisConsumer \<Rightarrow> Error + AnalysisConsumer" where
  "HandleTranslationUnit env s =
     (if hasErrorOccurred env \<or> hasFatalErrorOccurred env then Inr s
      else
        let s1 = logEvent RunCheckersOnTranslationUnitDecl s;
            s2 = s1\<lparr>RecVisitorMode :=
                      (if \<not> shouldInlineCall env then AM_Syntax OR AM_Path else AM_Syntax)\<rparr>;
            LocalTUDeclsSize = length (LocalTUDecls s2)
        in
          (case traverseLoop env 0 LocalTUDeclsSize s2 of
             Inl e \<Rightarrow> Inl e
           | Inr s3 \<Rightarrow>
               (case (if shouldInlineCall env
                      then (case HandleDeclsCallGraph env LocalTUDeclsSize s3 of
                              Inl e \<Rightarrow> Inl e
                            | Inr r \<Rightarrow> Inr (snd (snd r)))
                      else Inr s3) of
                  Inl e \<Rightarrow> Inl e
                | Inr s4 \<Rightarrow>
                    Inr (countCoverage
                           (logEvent RunCheckersOnEndOfTranslationUnit s4)))))"

subsection \<open>Notions used in the statements\<close>

definition getMethodFamily :: "Decl \<Rightarrow> ObjCMethodFamily option" where
  "getMethodFamily D = (case kind D of ObjCMethodDecl sel fam \<Rightarrow> Some fam | _ \<Rightarrow> None)"

text \<open>
  The mode resolver as the specification words it: the display name of a declaration
  is the selector of a method and the identifier of a function; the name filter is
  optional; clearing the Path bit is clearing bit 1.
\<close>

definition displayName :: "Decl \<Rightarrow> string option" where
  "displayName D =
     (case kind D of ObjCMethodDecl sel fam \<Rightarrow> Some sel | FunctionDecl II \<Rightarrow> II | _ \<Rightarrow> None)"

definition ModeResolver_spec ::
  "string option \<Rightarrow> bool \<Rightarrow> SourceManager \<Rightarrow> Decl \<Rightarrow> AnalysisMode \<Rightarrow> AnalysisMode" where
  "ModeResolver_spec nameFilter analyzeAll sm D M =
     (if nameFilter \<noteq> None \<and> displayName D \<noteq> nameFilter then 0
      else
        let loc = getExpansionLoc sm (getLocation D) in
        if \<not> analyzeAll \<and> \<not> isFromMainFile sm loc then
          (if isInvalid loc \<or> isInSystemHeader sm loc then 0 else unset_bit 1 M)
        else M)"

text \<open>The option \<open>AnalyzeSpecificFunction\<close> is a string; the empty string is no filter.\<close>

definition configuredFilter :: "AnalyzerOptions \<Rightarrow> string option" where
  "configuredFilter opts =
     (if AnalyzeSpecificFunction opts = [] then None else Some (AnalyzeSpecificFunction opts))"

text \<open>Events of the trace: runs of the engine, and calls of \<open>ActionExprEngine\<close>.\<close>

fun engineRun :: "Event \<Rightarrow> bool" where
  "engineRun (ExecuteWorkList a gc im) = True"
| "engineRun e = False"

fun actionCall :: "Event \<Rightarrow> bool" where
  "actionCall (CallActionExprEngine a gc im) = True"
| "actionCall e = False"

text \<open>The collector assumptions a path-sensitive analysis goes through, in order.\<close>

definition gcAssumptions :: "GCMode \<Rightarrow> bool list" where
  "gcAssumptions gc =
     (case gc of NonGC \<Rightarrow> [False] | GCOnly \<Rightarrow> [True] | HybridGC \<Rightarrow> [False, True])"

text \<open>
  Projections of the trace: the declarations traversed by the syntax pass, those added
  to the call graph, those passed to \<open>HandleCode\<close>, and the events of the
  path-sensitive analysis (calls of \<open>ActionExprEngine\<close> and runs of the engine).
\<close>

fun traversedOf :: "Event \<Rightarrow> nat list" where
  "traversedOf (CallTraverseDecl a) = [a]"
| "traversedOf e = []"

definition traversed :: "Event list \<Rightarrow> nat list" where
  "traversed tr = concat (map traversedOf tr)"

fun addedOf :: "Event \<Rightarrow> nat list" where
  "addedOf (AddToCallGraph a) = [a]"
| "addedOf e = []"

definition addedToGraph :: "Event list \<Rightarrow> nat list" where
  "addedToGraph tr = concat (map addedOf tr)"

fun handledOf :: "Event \<Rightarrow> nat list" where
  "handledOf (CallHandleCode a m im) = [a]"
| "handledOf e = []"

definition handled :: "Event list \<Rightarrow> nat list" where
  "handled tr = concat (map handledOf tr)"

definition engineEvents :: "Event list \<Rightarrow> Event list" where
  "engineEvents tr = filter (\<lambda>e. actionCall e \<or> engineRun e) tr"

text \<open>
  The visitor mode that \<open>HandleTranslationUnit\<close> sets before the syntax pass: Syntax, and
  Path as well when inlining is off.
\<close>

definition visitorModeOK :: "Collaborators \<Rightarrow> AnalysisConsumer \<Rightarrow> bool" where
  "visitorModeOK env s =
     (RecVisitorMode s = AM_Syntax \<or>
      (\<not> shouldInlineCall env \<and> RecVisitorMode s = (AM_Syntax OR AM_Path)))"

text \<open>
  What the handling of one declaration inside a pass leaves as it was: the store, the
  visitor mode, the traversal and call-graph projections of the trace and, when no
  path-sensitive checker is registered, the events of the path-sensitive analysis.
\<close>

definition frame :: "Collaborators \<Rightarrow> AnalysisConsumer \<Rightarrow> AnalysisConsumer \<Rightarrow> bool" where
  "frame env s s' =
     (LocalTUDecls s' = LocalTUDecls s \<and> RecVisitorMode s' = RecVisitorMode s \<and>
      traversed (trace s') = traversed (trace s) \<and>
      addedToGraph (trace s') = addedToGraph (trace s) \<and>
      (\<not> hasPathSensitiveCheckers env \<longrightarrow> engineEvents (trace s') = engineEvents (trace s)))"

text \<open>
  The sums of the per-declaration counts as natural numbers, as the specification's
  formula reads them.
\<close>

definition totalBlocks :: "FunctionSummariesTy \<Rightarrow> nat" where
  "totalBlocks FS = sum_list (map (\<lambda>p. unat (TotalBasicBlocks (snd p))) FS)"

definition visitedBlocks :: "FunctionSummariesTy \<Rightarrow> nat" where
  "visitedBlocks FS = sum_list (map (\<lambda>p. unat (NumVisitedBasicBlocks (snd p))) FS)"

subsection \<open>Example inputs\<close>

text \<open>
  Locations 1 to 99 are in the main file, 100 to 199 in a user header, 200 and above
  in a system header.
\<close>

definition ex_opts :: AnalyzerOptions where
  "ex_opts = \<lparr>AnalyzeSpecificFunction = [], AnalyzeAll = False,
     AnalyzerDisplayProgress = True, InliningMode = NoRedundancy\<rparr>"

definition ex_SM :: SourceManager where
  "ex_SM = \<lparr>getExpansionLoc = (\<lambda>SL. SL),
     isFromMainFile = (\<lambda>SL. SL \<noteq> 0 \<and> SL < 100),
     isInSystemHeader = (\<lambda>SL. 200 \<le> SL),
     presumedLocIsValid = (\<lambda>SL. SL \<noteq> 0)\<rparr>"

definition ex_fun :: "nat \<Rightarrow> string \<Rightarrow> Decl" where
  "ex_fun a name = \<lparr>addr = a, kind = FunctionDecl (Some name), hasBody = True,
     isThisDeclarationADefinition = True, isDependentContext = False, getLocation = 10\<rparr>"

definition ex_A :: Decl where "ex_A = ex_fun 1 ''A''"
definition ex_B :: Decl where "ex_B = ex_fun 2 ''B''"
definition ex_C :: Decl where "ex_C = ex_fun 3 ''C''"
definition ex_inline :: Decl where "ex_inline = ex_fun 9 ''__inline_memcpy''"

definition ex_method :: "nat \<Rightarrow> string \<Rightarrow> ObjCMethodFamily \<Rightarrow> Decl" where
  "ex_method a sel fam = \<lparr>addr = a, kind = ObjCMethodDecl sel fam, hasBody = True,
     isThisDeclarationADefinition = True, isDependentContext = False, getLocation = 20\<rparr>"

definition ex_init :: Decl where "ex_init = ex_method 7 ''init'' OMF_init"
definition ex_dealloc :: Decl where "ex_dealloc = ex_method 8 ''dealloc'' OMF_dealloc"

definition ex_container :: Decl where
  "ex_container = \<lparr>addr = 20, kind = OtherDecl, hasBody = False,
     isThisDeclarationADefinition = True, isDependentContext = False, getLocation = 20\<rparr>"

text \<open>
  An environment with inlining on and callee tracking on, in which the engine, run on
  the declaration at address 1 with full inlining, inlines the declarations at
  addresses 2 and 3 (and, run on the one at address 2, the one at address 3), and in
  which traversing the declaration at address 1 and adding the one at address 2 to the
  call graph each deliver one more declaration to the store.
\<close>

definition ex_env :: Collaborators where
  "ex_env = \<lparr>Opts = ex_opts, SM = ex_SM, shouldInlineCall = True, getGC = HybridGC,
     hasPathSensitiveCheckers = True, hasErrorOccurred = False, hasFatalErrorOccurred = False,
     getCFG = (\<lambda>D. Some 4), RelaxedLiveVariables = (\<lambda>D. True),
     engineCallees = (\<lambda>D gc im. if im = Inline_All
                        then (if addr D = 1 then {2, 3} else if addr D = 2 then {3} else {})
                        else {}),
     engineSummaries = (\<lambda>D gc im FS. FS),
     nestedDecls = (\<lambda>D. []),
     deserializedByTraverse = (\<lambda>D. if addr D = 1 then [[ex_fun 4 ''late'']] else []),
     deserializedByCallGraph = (\<lambda>D. if addr D = 2 then [[ex_fun 5 ''later'']] else []),
     rpoNodes = (\<lambda>CG. None # map Some CG)\<rparr>"

definition ex_state :: AnalysisConsumer where
  "ex_state = \<lparr>LocalTUDecls = [], RecVisitorMode = 0, FunctionSummaries = [],
     NumFunctionTopLevel = 0, NumFunctionsAnalyzed = 0, NumBlocksInAnalyzedFunctions = 0,
     PercentReachableBlocks = 0, MaxCFGSize = 0, trace = []\<rparr>"

text \<open>The same environment with the option \<open>InliningMode\<close> set to \<open>All\<close>.\<close>

definition ex_env_all :: Collaborators where
  "ex_env_all = ex_env\<lparr>Opts := ex_opts\<lparr>InliningMode := All_Inlining\<rparr>\<rparr>"

text \<open>
  An environment with inlining off, in which the declaration at address 2 has no
  control-flow graph and the liveness analysis of the one at address 3 is not
  available; a function that is a definition without a body; a function in a system
  header.
\<close>

definition ex_env_skips :: Collaborators where
  "ex_env_skips = ex_env\<lparr>shouldInlineCall := False,
     getCFG := (\<lambda>D. if addr D = 2 then None else Some 4),
     RelaxedLiveVariables := (\<lambda>D. addr D \<noteq> 3)\<rparr>"

text \<open>The same skips with inlining on and the option \<open>InliningMode\<close> set to \<open>All\<close>.\<close>

definition ex_env_all_skips :: Collaborators where
  "ex_env_all_skips = ex_env_all\<lparr>
     getCFG := (\<lambda>D. if addr D = 2 then None else Some 4),
     RelaxedLiveVariables := (\<lambda>D. addr D \<noteq> 3)\<rparr>"

definition ex_deleted :: Decl where "ex_deleted = (ex_fun 6 ''deleted'')\<lparr>hasBody := False\<rparr>"
definition ex_sys :: Decl where "ex_sys = (ex_fun 10 ''sys'')\<lparr>getLocation := 250\<rparr>"

text \<open>A translation unit of three functions, before the passes.\<close>

definition ex_unit :: AnalysisConsumer where
  "ex_unit = ex_state\<lparr>LocalTUDecls := [ex_A, ex_B, ex_C]\<rparr>"

text \<open>Two declarations of 25,000,000 basic blocks each, all visited.\<close>

definition ex_summaries_large :: FunctionSummariesTy where
  "ex_summaries_large =
     [(1, \<lparr>TotalBasicBlocks = 25000000, NumVisitedBasicBlocks = 25000000\<rparr>),
      (2, \<lparr>TotalBasicBlocks = 25000000, NumVisitedBasicBlocks = 25000000\<rparr>)]"

lemmas ex_defs = ex_opts_def ex_SM_def ex_fun_def ex_A_def ex_B_def ex_C_def ex_inline_def
  ex_method_def ex_init_def ex_dealloc_def ex_container_def ex_env_def ex_state_def
  ex_env_all_def ex_unit_def ex_summaries_large_def ex_env_skips_def ex_deleted_def ex_sys_def
  ex_env_all_skips_def

lemmas model_defs = isInvalid_def isa_ObjCMethodDecl_def getIdentifier_def AM_None_def
  AM_Syntax_def AM_Path_def logEvent_def HandleTopLevelDecl_def
  HandleTopLevelDeclInObjCContainer_def shouldSkipFunction_def getInliningModeForFunction_def
  getFunctionName_def getModeForDecl_def DisplayFunction_def ActionExprEngine_def
  RunPathSensitiveChecks_def HandleCode_def startswith_def VisitDecl_def handleInVisitor_def
  VisitFunctionDecl_def VisitObjCMethodDecl_def VisitBlockDecl_def WalkUpFrom_def
  deliverGroups_def TraverseDecl_def addToCallGraph_def HandleDeclsCallGraph_def
  countCoverage_def HandleTranslationUnit_def getTotalNumBasicBlocks_def
  getTotalNumVisitedBasicBlocks_def traverseLoop.simps callGraphBuildLoop.simps
  traversed_def addedToGraph_def handled_def engineEvents_def gcAssumptions_def

section \<open>The declaration collector\<close>

lemma storeTopLevelDecls_filter:
  "storeTopLevelDecls DG L = L @ filter (\<lambda>I. \<not> isa_ObjCMethodDecl I) DG"
  by (induction DG arbitrary: L) simp_all

text \<open>
  C9, as the code has it. For every delivered declaration group, through either entry
  point, the collector skips every method declaration and appends every other
  declaration to the store, in the order of the group; a method declaration is never
  appended, also when it is delivered again for its container. Nothing else of the
  state changes (no analysis runs), and the collector has no failure.
\<close>

theorem C9_collector_skips_methods:
  "storeTopLevelDecls DG L = L @ filter (\<lambda>I. \<not> isa_ObjCMethodDecl I) DG
   \<and> HandleTopLevelDecl DG s =
       (True, s\<lparr>LocalTUDecls := LocalTUDecls s @ filter (\<lambda>I. \<not> isa_ObjCMethodDecl I) DG\<rparr>)
   \<and> HandleTopLevelDeclInObjCContainer DG s =
       s\<lparr>LocalTUDecls := LocalTUDecls s @ filter (\<lambda>I. \<not> isa_ObjCMethodDecl I) DG\<rparr>"
  by (simp add: storeTopLevelDecls_filter HandleTopLevelDecl_def
      HandleTopLevelDeclInObjCContainer_def)

theorem C9_collector_witness:
  "HandleTopLevelDeclInObjCContainer [ex_container, ex_init, ex_A] ex_state =
     ex_state\<lparr>LocalTUDecls := [ex_container, ex_A]\<rparr>"
  using C9_collector_skips_methods [of "[ex_container, ex_init, ex_A]" "[]" ex_state]
  by (simp add: ex_defs isa_ObjCMethodDecl_def)

text \<open>
  C9 as stated says that a deferred method is appended once it is supplied again. A
  method delivered at top level and then again for its container is in the store after
  neither delivery.
\<close>

theorem C9_method_never_appended:
  "ex_init \<notin> set (LocalTUDecls (HandleTopLevelDeclInObjCContainer [ex_init]
                      (snd (HandleTopLevelDecl [ex_init] ex_state))))"
  by (simp add: HandleTopLevelDecl_def HandleTopLevelDeclInObjCContainer_def
      ex_defs isa_ObjCMethodDecl_def)

section \<open>The mode resolver\<close>

lemma clear_path_bit: "(M :: 32 word) AND NOT AM_Path = unset_bit 1 M"
  by (simp add: AM_Path_def unset_bit_eq_and_not)

lemma name_mismatch:
  "f \<noteq> [] \<Longrightarrow> (getFunctionName D \<noteq> f) = (displayName D \<noteq> Some f)"
  by (auto simp: getFunctionName_def displayName_def split: DeclKind.splits option.splits)

text \<open>
  C3. For every declaration and requested mode, \<open>getModeForDecl\<close> returns what the
  specification's three steps give: the empty mode when a name filter is configured and
  the display name does not match it; otherwise, when \<open>analyzeAll\<close> is off and the
  expansion location is not in the main file, the empty mode for an invalid or
  system-header location and else the mode with the Path bit cleared; otherwise the
  mode unchanged. The result depends on the filter, the flag, the source manager, the
  declaration and the mode only.
\<close>

theorem C3_mode_resolver:
  "getModeForDecl env D M =
     ModeResolver_spec (configuredFilter (Opts env)) (AnalyzeAll (Opts env)) (SM env) D M"
proof (cases "AnalyzeSpecificFunction (Opts env) = []")
  case True
  then show ?thesis
    by (simp add: getModeForDecl_def ModeResolver_spec_def configuredFilter_def
        clear_path_bit AM_None_def Let_def)
next
  case False
  then show ?thesis
    using name_mismatch [OF False, of D]
    by (simp add: getModeForDecl_def ModeResolver_spec_def configuredFilter_def
        clear_path_bit AM_None_def Let_def)
qed

theorem C3_mode_resolver_witness:
  "getModeForDecl ex_env (ex_A\<lparr>getLocation := 150\<rparr>) 3 = 1
   \<and> getModeForDecl ex_env (ex_A\<lparr>getLocation := 250\<rparr>) 3 = 0
   \<and> getModeForDecl ex_env ex_A 3 = 3
   \<and> getModeForDecl (ex_env\<lparr>Opts := ex_opts\<lparr>AnalyzeSpecificFunction := ''B''\<rparr>\<rparr>) ex_A 3 = 0"
  using C3_mode_resolver [of ex_env "ex_A\<lparr>getLocation := 150\<rparr>" 3]
    C3_mode_resolver [of ex_env "ex_A\<lparr>getLocation := 250\<rparr>" 3]
    C3_mode_resolver [of ex_env ex_A 3]
    C3_mode_resolver [of "ex_env\<lparr>Opts := ex_opts\<lparr>AnalyzeSpecificFunction := ''B''\<rparr>\<rparr>" ex_A 3]
  by (simp add: ModeResolver_spec_def configuredFilter_def displayName_def isInvalid_def
      ex_defs unset_bit_eq_and_not)

section \<open>The inlining mode of a top-level run\<close>

text \<open>
  C2. With inlining enabled, the mode computed for a declaration that the call-graph
  pass does not skip is full inlining, except for a method that is already in
  \<open>Visited\<close> and whose family is not the initializer family: its mode is no inlining.
  A method of the initializer family keeps full inlining.
\<close>

theorem C2_inlining_mode:
  assumes "shouldInlineCall env"
    and "\<not> shouldSkipFunction D Visited VisitedAsTopLevel"
  shows "getInliningModeForFunction env D Visited =
     Inr (if addr D \<in> Visited \<and> isa_ObjCMethodDecl D \<and> getMethodFamily D \<noteq> Some OMF_init
          then Inline_None else Inline_All)"
  using assms
  by (auto simp: getInliningModeForFunction_def shouldSkipFunction_def isa_ObjCMethodDecl_def
      getMethodFamily_def split: DeclKind.splits if_splits)

theorem C2_inlining_mode_witness:
  "shouldInlineCall ex_env
   \<and> \<not> shouldSkipFunction ex_init {7, 8} {} \<and> \<not> shouldSkipFunction ex_dealloc {7, 8} {}
   \<and> \<not> shouldSkipFunction ex_A {7, 8} {}
   \<and> getInliningModeForFunction ex_env ex_init {7, 8} = Inr Inline_All
   \<and> getInliningModeForFunction ex_env ex_dealloc {7, 8} = Inr Inline_None
   \<and> getInliningModeForFunction ex_env ex_A {7, 8} = Inr Inline_All"
  using C2_inlining_mode [of ex_env ex_init "{7, 8}" "{}"]
    C2_inlining_mode [of ex_env ex_dealloc "{7, 8}" "{}"]
    C2_inlining_mode [of ex_env ex_A "{7, 8}" "{}"]
  by (simp add: shouldSkipFunction_def isa_ObjCMethodDecl_def getMethodFamily_def ex_defs)

section \<open>Runs of the engine per collector assumption\<close>

lemma ActionExprEngine_actionCalls:
  "filter actionCall (trace (snd (ActionExprEngine env D gc IMode VC s))) =
     filter actionCall (trace s) @ [CallActionExprEngine (addr D) gc IMode]"
  by (simp add: ActionExprEngine_def logEvent_def Let_def)

lemma ActionExprEngine_engineRuns:
  "getCFG env D \<noteq> None \<Longrightarrow> RelaxedLiveVariables env D \<Longrightarrow>
   filter engineRun (trace (snd (ActionExprEngine env D gc IMode VC s))) =
     filter engineRun (trace s) @ [ExecuteWorkList (addr D) gc IMode]"
  by (simp add: ActionExprEngine_def logEvent_def Let_def)

text \<open>
  C7. One call of \<open>RunPathSensitiveChecks\<close> for a declaration invokes \<open>ActionExprEngine\<close>
  once per collector assumption of the language options: twice under the hybrid
  assumption, first with the collector absent and then with it present, and once under
  each of the other two. When the declaration has a control-flow graph and its liveness
  analysis is available (the analysis is not skipped), each invocation is one run of the
  engine, so the engine runs exactly twice, respectively once.
\<close>

theorem C7_runs_per_assumption:
  "filter actionCall (trace (snd (RunPathSensitiveChecks env D IMode VC s))) =
     filter actionCall (trace s) @
       map (\<lambda>gc. CallActionExprEngine (addr D) gc IMode) (gcAssumptions (getGC env))
   \<and> (getCFG env D \<noteq> None \<and> RelaxedLiveVariables env D \<longrightarrow>
        filter engineRun (trace (snd (RunPathSensitiveChecks env D IMode VC s))) =
          filter engineRun (trace s) @
            map (\<lambda>gc. ExecuteWorkList (addr D) gc IMode) (gcAssumptions (getGC env)))
   \<and> gcAssumptions NonGC = [False] \<and> gcAssumptions GCOnly = [True]
   \<and> gcAssumptions HybridGC = [False, True]"
proof (cases "getGC env")
  case NonGC
  then show ?thesis
    by (simp add: RunPathSensitiveChecks_def gcAssumptions_def ActionExprEngine_actionCalls
        ActionExprEngine_engineRuns)
next
  case GCOnly
  then show ?thesis
    by (simp add: RunPathSensitiveChecks_def gcAssumptions_def ActionExprEngine_actionCalls
        ActionExprEngine_engineRuns)
next
  case HybridGC
  obtain VC1 s1 where first: "ActionExprEngine env D False IMode VC s = (VC1, s1)"
    by (cases "ActionExprEngine env D False IMode VC s")
  have s1: "s1 = snd (ActionExprEngine env D False IMode VC s)"
    by (simp add: first)
  have run: "RunPathSensitiveChecks env D IMode VC s = ActionExprEngine env D True IMode VC1 s1"
    by (simp add: RunPathSensitiveChecks_def HybridGC first)
  show ?thesis
    by (simp add: run gcAssumptions_def HybridGC ActionExprEngine_actionCalls
        ActionExprEngine_engineRuns s1)
qed

theorem C7_runs_witness:
  "getCFG ex_env ex_A \<noteq> None \<and> RelaxedLiveVariables ex_env ex_A
   \<and> filter engineRun (trace (snd (RunPathSensitiveChecks ex_env ex_A Inline_All None ex_state))) =
     [ExecuteWorkList 1 False Inline_All, ExecuteWorkList 1 True Inline_All]
   \<and> filter engineRun (trace (snd (RunPathSensitiveChecks (ex_env\<lparr>getGC := GCOnly\<rparr>) ex_A
        Inline_All None ex_state))) = [ExecuteWorkList 1 True Inline_All]
   \<and> filter engineRun (trace (snd (RunPathSensitiveChecks (ex_env\<lparr>getGC := NonGC\<rparr>) ex_A
        Inline_All None ex_state))) = [ExecuteWorkList 1 False Inline_All]"
  using C7_runs_per_assumption [of ex_env ex_A Inline_All None ex_state]
    C7_runs_per_assumption [of "ex_env\<lparr>getGC := GCOnly\<rparr>" ex_A Inline_All None ex_state]
    C7_runs_per_assumption [of "ex_env\<lparr>getGC := NonGC\<rparr>" ex_A Inline_All None ex_state]
  by (simp add: ex_defs)

section \<open>The coverage statistic\<close>

lemma unat_sum_list:
  "sum_list (map (\<lambda>x. unat (f x)) xs) < 2 ^ 32 \<Longrightarrow>
   unat (sum_list (map f xs) :: 32 word) = sum_list (map (\<lambda>x. unat (f x)) xs)"
proof (induction xs)
  case Nil
  then show ?case by simp
next
  case (Cons x xs)
  then have "sum_list (map (\<lambda>x. unat (f x)) xs) < 2 ^ 32" by simp
  with Cons.IH have ih: "unat (sum_list (map f xs)) = sum_list (map (\<lambda>x. unat (f x)) xs)" by simp
  have "unat (f x + sum_list (map f xs)) = unat (f x) + unat (sum_list (map f xs))"
    using Cons.prems ih by (simp add: unat_add_lem [THEN iffD1])
  then show ?case by (simp add: ih)
qed

lemma coverage_without_overflow:
  assumes "totalBlocks (FunctionSummaries s) < 2 ^ 32"
    and "100 * visitedBlocks (FunctionSummaries s) < 2 ^ 32"
  shows "unat (NumBlocksInAnalyzedFunctions (countCoverage s)) = totalBlocks (FunctionSummaries s)"
    and "0 < totalBlocks (FunctionSummaries s) \<Longrightarrow>
           unat (PercentReachableBlocks (countCoverage s)) =
             (100 * visitedBlocks (FunctionSummaries s)) div totalBlocks (FunctionSummaries s)"
    and "totalBlocks (FunctionSummaries s) = 0 \<Longrightarrow>
           PercentReachableBlocks (countCoverage s) = PercentReachableBlocks s"
proof -
  have b: "unat (getTotalNumBasicBlocks (FunctionSummaries s)) = totalBlocks (FunctionSummaries s)"
    unfolding getTotalNumBasicBlocks_def totalBlocks_def
    using assms(1) by (intro unat_sum_list) (simp add: totalBlocks_def)
  have "visitedBlocks (FunctionSummaries s) < 2 ^ 32" using assms(2) by simp
  then have v: "unat (getTotalNumVisitedBasicBlocks (FunctionSummaries s)) = visitedBlocks (FunctionSummaries s)"
    unfolding getTotalNumVisitedBasicBlocks_def visitedBlocks_def
    by (intro unat_sum_list) (simp add: visitedBlocks_def)
  have m: "unat (getTotalNumVisitedBasicBlocks (FunctionSummaries s) * 100) = visitedBlocks (FunctionSummaries s) * 100"
    using assms(2) v by (simp add: unat_mult_lem [THEN iffD1])
  show "unat (NumBlocksInAnalyzedFunctions (countCoverage s)) = totalBlocks (FunctionSummaries s)"
    by (simp add: countCoverage_def Let_def b)
  show "unat (PercentReachableBlocks (countCoverage s)) =
             (100 * visitedBlocks (FunctionSummaries s)) div totalBlocks (FunctionSummaries s)"
    if "0 < totalBlocks (FunctionSummaries s)"
  proof -
    have "0 < getTotalNumBasicBlocks (FunctionSummaries s)"
      using that b by (simp add: word_less_nat_alt)
    then show ?thesis
      by (simp add: countCoverage_def Let_def unat_div m b mult.commute)
  qed
  show "PercentReachableBlocks (countCoverage s) = PercentReachableBlocks s"
    if "totalBlocks (FunctionSummaries s) = 0"
  proof -
    have "getTotalNumBasicBlocks (FunctionSummaries s) = 0"
      using that b by (simp add: unat_eq_0)
    then show ?thesis by (simp add: countCoverage_def Let_def)
  qed
qed

text \<open>
  C5 at an input where the 32-bit product wraps: two declarations of 25,000,000 basic
  blocks each, all visited. The coverage statistic computed is 14, where 100 times the
  visited blocks divided by the total blocks, rounded down, is 100. Below the bounds
  of \<open>coverage_without_overflow\<close> the two agree.
\<close>

theorem C5_coverage_wraps:
  "PercentReachableBlocks (countCoverage (ex_state\<lparr>FunctionSummaries := ex_summaries_large\<rparr>)) = 14
   \<and> (100 * visitedBlocks ex_summaries_large) div totalBlocks ex_summaries_large = 100"
  by (simp add: countCoverage_def getTotalNumBasicBlocks_def getTotalNumVisitedBasicBlocks_def
      ex_summaries_large_def ex_state_def totalBlocks_def visitedBlocks_def)

section \<open>What the handling of a declaration preserves\<close>

lemma frame_refl: "frame env s s"
  by (simp add: frame_def)

lemma frame_trans: "frame env s s1 \<Longrightarrow> frame env s1 s2 \<Longrightarrow> frame env s s2"
  by (simp add: frame_def)

lemma frame_visitorModeOK: "frame env s s' \<Longrightarrow> visitorModeOK env s \<Longrightarrow> visitorModeOK env s'"
  by (simp add: frame_def visitorModeOK_def)

lemma logEvent_simps:
  "trace (logEvent e s) = trace s @ [e]"
  "LocalTUDecls (logEvent e s) = LocalTUDecls s"
  "RecVisitorMode (logEvent e s) = RecVisitorMode s"
  "FunctionSummaries (logEvent e s) = FunctionSummaries s"
  "MaxCFGSize (logEvent e s) = MaxCFGSize s"
  "NumFunctionsAnalyzed (logEvent e s) = NumFunctionsAnalyzed s"
  "NumFunctionTopLevel (logEvent e s) = NumFunctionTopLevel s"
  by (simp_all add: logEvent_def)

lemma proj_append:
  "traversed (xs @ ys) = traversed xs @ traversed ys"
  "addedToGraph (xs @ ys) = addedToGraph xs @ addedToGraph ys"
  "handled (xs @ ys) = handled xs @ handled ys"
  "engineEvents (xs @ ys) = engineEvents xs @ engineEvents ys"
  by (simp_all add: traversed_def addedToGraph_def handled_def engineEvents_def)

lemma proj_single:
  "traversed [] = []" "traversed (e # es) = traversedOf e @ traversed es"
  "addedToGraph [] = []" "addedToGraph (e # es) = addedOf e @ addedToGraph es"
  "handled [] = []" "handled (e # es) = handledOf e @ handled es"
  "engineEvents [] = []"
  "engineEvents (e # es) = (if actionCall e \<or> engineRun e then e # engineEvents es else engineEvents es)"
  by (simp_all add: traversed_def addedToGraph_def handled_def engineEvents_def)

lemma ActionExprEngine_frame:
  "ActionExprEngine env D gc IMode VC s = (VC', s') \<Longrightarrow>
   LocalTUDecls s' = LocalTUDecls s \<and> RecVisitorMode s' = RecVisitorMode s \<and>
   traversed (trace s') = traversed (trace s) \<and>
   addedToGraph (trace s') = addedToGraph (trace s) \<and>
   handled (trace s') = handled (trace s)"
  by (auto simp: ActionExprEngine_def Let_def logEvent_simps proj_append proj_single
      split: if_splits)

lemma RunPathSensitiveChecks_frame:
  "RunPathSensitiveChecks env D IMode VC s = (VC', s') \<Longrightarrow>
   LocalTUDecls s' = LocalTUDecls s \<and> RecVisitorMode s' = RecVisitorMode s \<and>
   traversed (trace s') = traversed (trace s) \<and>
   addedToGraph (trace s') = addedToGraph (trace s) \<and>
   handled (trace s') = handled (trace s)"
  unfolding RunPathSensitiveChecks_def
  by (cases "getGC env")
     (auto dest!: ActionExprEngine_frame split: prod.splits)

lemma mode_after_resolver:
  "M = AM_Syntax \<or> M = AM_Path \<or> M = (AM_Syntax OR AM_Path) \<Longrightarrow>
   getModeForDecl env D M = AM_None \<or> getModeForDecl env D M = AM_Syntax \<or>
   getModeForDecl env D M = AM_Path \<or> getModeForDecl env D M = (AM_Syntax OR AM_Path)"
  by (auto simp: getModeForDecl_def AM_None_def AM_Syntax_def AM_Path_def Let_def)

lemma DisplayFunction_ok:
  "M = AM_Syntax \<or> M = AM_Path \<or> M = (AM_Syntax OR AM_Path) \<Longrightarrow>
   DisplayFunction env D M = Inr ()"
  by (auto simp: DisplayFunction_def)

lemma HandleCode_total:
  assumes "M = AM_Syntax \<or> M = AM_Path \<or> M = (AM_Syntax OR AM_Path)"
  shows "\<exists>VC' s'. HandleCode env D M IMode VC s = Inr (VC', s') \<and> frame env s s' \<and>
           handled (trace s') = handled (trace s) @ [addr D]"
proof -
  let ?s = "logEvent (CallHandleCode (addr D) M IMode) s"
  have base: "frame env s ?s \<and> handled (trace ?s) = handled (trace s) @ [addr D]"
    by (simp add: frame_def logEvent_simps proj_append proj_single)
  show ?thesis
  proof (cases "hasBody D \<and> getModeForDecl env D M \<noteq> AM_None")
    case False
    then have "HandleCode env D M IMode VC s = Inr (VC, ?s)"
      by (cases "hasBody D") (simp_all add: HandleCode_def Let_def)
    then show ?thesis using base by simp
  next
    case True
    let ?M = "getModeForDecl env D M"
    have okM: "?M = AM_Syntax \<or> ?M = AM_Path \<or> ?M = (AM_Syntax OR AM_Path)"
      using mode_after_resolver [OF assms, of env D] True by auto
    have disp: "DisplayFunction env D ?M = Inr ()"
      by (rule DisplayFunction_ok [OF okM])
    define s1 where "s1 = (case getCFG env D of
                           Some CFGSize \<Rightarrow>
                             ?s\<lparr>MaxCFGSize :=
                                 (if MaxCFGSize ?s < CFGSize then CFGSize else MaxCFGSize ?s)\<rparr>
                         | None \<Rightarrow> ?s)"
    define s2 where "s2 = (if ?M AND AM_Syntax \<noteq> 0
                         then logEvent (RunCheckersOnASTBody (addr D)) s1 else s1)"
    have f1: "frame env ?s s1 \<and> handled (trace s1) = handled (trace ?s)"
      by (simp add: s1_def frame_def split: option.splits)
    have f2: "frame env s1 s2 \<and> handled (trace s2) = handled (trace s1)"
      by (simp add: s2_def frame_def logEvent_simps proj_append proj_single)
    have f02: "frame env s s2 \<and> handled (trace s2) = handled (trace s) @ [addr D]"
      using base f1 f2 by (auto intro: frame_trans)
    show ?thesis
    proof (cases "?M AND AM_Path \<noteq> 0 \<and> hasPathSensitiveCheckers env")
      case False
      then have "HandleCode env D M IMode VC s = Inr (VC, s2)"
        unfolding HandleCode_def Let_def s2_def s1_def
        using True disp by (cases "?M AND AM_Path = 0") simp_all
      then show ?thesis using f02 by simp
    next
      case path: True
      obtain VC3 s3 where r: "RunPathSensitiveChecks env D IMode VC s2 = (VC3, s3)"
        by (cases "RunPathSensitiveChecks env D IMode VC s2")
      let ?s4 = "if IMode \<noteq> Inline_None
                 then s3\<lparr>NumFunctionsAnalyzed := NumFunctionsAnalyzed s3 + 1\<rparr> else s3"
      have hc: "HandleCode env D M IMode VC s = Inr (VC3, ?s4)"
      proof -
        have "HandleCode env D M IMode VC s =
                (case RunPathSensitiveChecks env D IMode VC s2 of
                   (VC, s3) \<Rightarrow>
                     Inr (VC, if IMode \<noteq> Inline_None
                              then s3\<lparr>NumFunctionsAnalyzed := NumFunctionsAnalyzed s3 + 1\<rparr>
                              else s3))"
          unfolding HandleCode_def Let_def s2_def s1_def
          using True disp path by simp
        then show ?thesis by (simp add: r)
      qed
      have f3: "frame env s2 s3 \<and> handled (trace s3) = handled (trace s2)"
        using RunPathSensitiveChecks_frame [OF r] path by (simp add: frame_def)
      have f4: "frame env s3 ?s4 \<and> handled (trace ?s4) = handled (trace s3)"
        by (simp add: frame_def)
      have "frame env s ?s4 \<and> handled (trace ?s4) = handled (trace s) @ [addr D]"
        using f02 f3 f4 frame_trans [of env s s2 s3] frame_trans [of env s s3 ?s4] by simp
      then show ?thesis using hc by blast
    qed
  qed
qed


lemma visitorMode_cases:
  "visitorModeOK env s \<Longrightarrow>
   RecVisitorMode s = AM_Syntax \<or> RecVisitorMode s = AM_Path \<or>
   RecVisitorMode s = (AM_Syntax OR AM_Path)"
  by (auto simp: visitorModeOK_def)

lemma handleInVisitor_total:
  assumes "visitorModeOK env s"
  shows "\<exists>s'. handleInVisitor env D s = Inr s' \<and> frame env s s'"
proof -
  obtain VC' s' where h: "HandleCode env D (RecVisitorMode s) Inline_None None s = Inr (VC', s')"
    and f: "frame env s s'"
    using HandleCode_total [OF visitorMode_cases [OF assms], of env D Inline_None None] by blast
  have "RecVisitorMode s = AM_Syntax \<or> shouldInlineCall env = False"
    using assms by (auto simp: visitorModeOK_def)
  then have "handleInVisitor env D s = Inr s'"
    by (simp add: handleInVisitor_def h)
  then show ?thesis using f by blast
qed

lemma VisitDecl_frame: "frame env s (VisitDecl env D s)"
  by (simp add: VisitDecl_def Let_def frame_def logEvent_simps proj_append proj_single)

lemma VisitFunctionDecl_total:
  "visitorModeOK env s \<Longrightarrow> \<exists>s'. VisitFunctionDecl env D s = Inr s' \<and> frame env s s'"
  using handleInVisitor_total [of env s D]
  by (auto simp: VisitFunctionDecl_def frame_refl)

lemma VisitObjCMethodDecl_total:
  "visitorModeOK env s \<Longrightarrow> \<exists>s'. VisitObjCMethodDecl env D s = Inr s' \<and> frame env s s'"
  using handleInVisitor_total [of env s D]
  by (auto simp: VisitObjCMethodDecl_def frame_refl)

lemma VisitBlockDecl_total:
  "visitorModeOK env s \<Longrightarrow> \<exists>s'. VisitBlockDecl env D s = Inr s' \<and> frame env s s'"
  using handleInVisitor_total [of env s D]
  by (auto simp: VisitBlockDecl_def frame_refl)

lemma WalkUpFrom_total:
  assumes "visitorModeOK env s"
  shows "\<exists>s'. WalkUpFrom env D s = Inr s' \<and> frame env s s'"
proof -
  let ?s1 = "VisitDecl env D s"
  have f1: "frame env s ?s1" by (rule VisitDecl_frame)
  have ok1: "visitorModeOK env ?s1" by (rule frame_visitorModeOK [OF f1 assms])
  have "\<exists>s'. WalkUpFrom env D s = Inr s' \<and> frame env ?s1 s'"
  proof (cases "kind D")
    case (FunctionDecl II)
    then show ?thesis
      using VisitFunctionDecl_total [OF ok1, of D] by (simp add: WalkUpFrom_def Let_def)
  next
    case (ObjCMethodDecl sel fam)
    then show ?thesis
      using VisitObjCMethodDecl_total [OF ok1, of D] by (simp add: WalkUpFrom_def Let_def)
  next
    case BlockDecl
    then show ?thesis
      using VisitBlockDecl_total [OF ok1, of D] by (simp add: WalkUpFrom_def Let_def)
  next
    case OtherDecl
    then show ?thesis by (simp add: WalkUpFrom_def Let_def frame_refl)
  qed
  then show ?thesis using f1 frame_trans by blast
qed

lemma visitAll_total:
  "visitorModeOK env s \<Longrightarrow> \<exists>s'. visitAll env Ds s = Inr s' \<and> frame env s s'"
proof (induction Ds arbitrary: s)
  case Nil
  then show ?case by (simp add: frame_refl)
next
  case (Cons D Ds)
  obtain s1 where w: "WalkUpFrom env D s = Inr s1" and f1: "frame env s s1"
    using WalkUpFrom_total [OF Cons.prems] by blast
  obtain s' where v: "visitAll env Ds s1 = Inr s'" and f2: "frame env s1 s'"
    using Cons.IH [OF frame_visitorModeOK [OF f1 Cons.prems]] by blast
  show ?case using w v frame_trans [OF f1 f2] by simp
qed

lemma deliverGroups_eq:
  "deliverGroups DGs s =
     s\<lparr>LocalTUDecls := LocalTUDecls s @ concat (map (filter (\<lambda>I. \<not> isa_ObjCMethodDecl I)) DGs)\<rparr>"
  unfolding deliverGroups_def
  by (induction DGs arbitrary: s) (simp_all add: HandleTopLevelDecl_def storeTopLevelDecls_filter)

lemma TraverseDecl_total:
  assumes "visitorModeOK env s"
  shows "\<exists>s' app. TraverseDecl env D s = Inr s' \<and>
           LocalTUDecls s' = LocalTUDecls s @ app \<and>
           RecVisitorMode s' = RecVisitorMode s \<and>
           traversed (trace s') = traversed (trace s) @ [addr D] \<and>
           addedToGraph (trace s') = addedToGraph (trace s) \<and>
           (\<not> hasPathSensitiveCheckers env \<longrightarrow> engineEvents (trace s') = engineEvents (trace s))"
proof -
  let ?s0 = "logEvent (CallTraverseDecl (addr D)) s"
  have ok0: "visitorModeOK env ?s0"
    using assms by (simp add: visitorModeOK_def logEvent_simps)
  obtain s1 where v: "visitAll env (D # nestedDecls env D) ?s0 = Inr s1" and f: "frame env ?s0 s1"
    using visitAll_total [OF ok0] by blast
  have "TraverseDecl env D s = Inr (deliverGroups (deserializedByTraverse env D) s1)"
    by (simp add: TraverseDecl_def v del: visitAll.simps)
  then show ?thesis
    using f
    by (simp add: deliverGroups_eq frame_def logEvent_simps proj_append proj_single)
qed


lemma snapshot_step:
  assumes "i < n" and "n \<le> length L"
  shows "drop i (take n L) = L ! i # drop (Suc i) (take n (L @ app))"
proof -
  have "i < length (take n L)" using assms by simp
  then have "drop i (take n L) = take n L ! i # drop (Suc i) (take n L)"
    by (rule Cons_nth_drop_Suc [symmetric])
  then show ?thesis using assms by simp
qed

lemma traverseLoop_total:
  "visitorModeOK env s \<Longrightarrow> n \<le> length (LocalTUDecls s) \<Longrightarrow>
   \<exists>s' app. traverseLoop env i n s = Inr s' \<and>
     LocalTUDecls s' = LocalTUDecls s @ app \<and>
     RecVisitorMode s' = RecVisitorMode s \<and>
     traversed (trace s') = traversed (trace s) @ map addr (drop i (take n (LocalTUDecls s))) \<and>
     addedToGraph (trace s') = addedToGraph (trace s) \<and>
     (\<not> hasPathSensitiveCheckers env \<longrightarrow> engineEvents (trace s') = engineEvents (trace s))"
proof (induction env i n s rule: traverseLoop.induct)
  case (1 env i n s)
  show ?case
  proof (cases "i < n")
    case False
    then show ?thesis by (simp add: traverseLoop.simps [of env i n s])
  next
    case True
    then have inside: "i < length (LocalTUDecls s)" using "1.prems" by simp
    let ?D = "LocalTUDecls s ! i"
    obtain s1 app1 where t: "TraverseDecl env ?D s = Inr s1"
      and l1: "LocalTUDecls s1 = LocalTUDecls s @ app1"
      and m1: "RecVisitorMode s1 = RecVisitorMode s"
      and tr1: "traversed (trace s1) = traversed (trace s) @ [addr ?D]"
      and a1: "addedToGraph (trace s1) = addedToGraph (trace s)"
      and e1: "\<not> hasPathSensitiveCheckers env \<longrightarrow> engineEvents (trace s1) = engineEvents (trace s)"
      using TraverseDecl_total [OF "1.prems"(1), of ?D] by blast
    have ok1: "visitorModeOK env s1"
      using "1.prems"(1) m1 by (simp add: visitorModeOK_def)
    have n1: "n \<le> length (LocalTUDecls s1)" using "1.prems"(2) l1 by simp
    obtain s' app where r: "traverseLoop env (i + 1) n s1 = Inr s'"
      and l2: "LocalTUDecls s' = LocalTUDecls s1 @ app"
      and m2: "RecVisitorMode s' = RecVisitorMode s1"
      and tr2: "traversed (trace s') =
                  traversed (trace s1) @ map addr (drop (i + 1) (take n (LocalTUDecls s1)))"
      and a2: "addedToGraph (trace s') = addedToGraph (trace s1)"
      and e2: "\<not> hasPathSensitiveCheckers env \<longrightarrow> engineEvents (trace s') = engineEvents (trace s1)"
      using "1.IH" [OF True inside t ok1 n1] by blast
    have loop: "traverseLoop env i n s = Inr s'"
      using True inside t r by (simp add: traverseLoop.simps [of env i n s])
    have "traversed (trace s') =
            traversed (trace s) @ map addr (drop i (take n (LocalTUDecls s)))"
      using tr1 tr2 l1 snapshot_step [OF True "1.prems"(2), of app1] by simp
    then show ?thesis
      using loop l1 l2 m1 m2 a1 a2 e1 e2 by simp
  qed
qed

lemma addToCallGraph_eq:
  "addToCallGraph env D s =
     s\<lparr>LocalTUDecls := LocalTUDecls s @
           concat (map (filter (\<lambda>I. \<not> isa_ObjCMethodDecl I)) (deserializedByCallGraph env D)),
       trace := trace s @ [AddToCallGraph (addr D)]\<rparr>"
  by (simp add: addToCallGraph_def deliverGroups_eq logEvent_def)

lemma callGraphBuildLoop_total:
  "n \<le> length (LocalTUDecls s) \<Longrightarrow>
   \<exists>s' app. callGraphBuildLoop env i n CG s =
               Inr (CG @ drop i (take n (LocalTUDecls s)), s') \<and>
     LocalTUDecls s' = LocalTUDecls s @ app \<and>
     RecVisitorMode s' = RecVisitorMode s \<and>
     addedToGraph (trace s') = addedToGraph (trace s) @ map addr (drop i (take n (LocalTUDecls s))) \<and>
     traversed (trace s') = traversed (trace s) \<and>
     handled (trace s') = handled (trace s) \<and>
     engineEvents (trace s') = engineEvents (trace s) \<and>
     FunctionSummaries s' = FunctionSummaries s"
proof (induction env i n CG s rule: callGraphBuildLoop.induct)
  case (1 env i n CG s)
  show ?case
  proof (cases "i < n")
    case False
    then show ?thesis by (simp add: callGraphBuildLoop.simps [of env i n CG s])
  next
    case True
    then have inside: "i < length (LocalTUDecls s)" using "1.prems" by simp
    let ?D = "LocalTUDecls s ! i"
    let ?s1 = "addToCallGraph env ?D s"
    let ?app1 = "concat (map (filter (\<lambda>I. \<not> isa_ObjCMethodDecl I)) (deserializedByCallGraph env ?D))"
    have l1: "LocalTUDecls ?s1 = LocalTUDecls s @ ?app1"
      by (simp add: addToCallGraph_eq)
    have n1: "n \<le> length (LocalTUDecls ?s1)" using "1.prems" l1 by simp
    obtain s' app where r: "callGraphBuildLoop env (i + 1) n (CG @ [?D]) ?s1 =
                              Inr ((CG @ [?D]) @ drop (i + 1) (take n (LocalTUDecls ?s1)), s')"
      and l2: "LocalTUDecls s' = LocalTUDecls ?s1 @ app"
      and m2: "RecVisitorMode s' = RecVisitorMode ?s1"
      and a2: "addedToGraph (trace s') =
                 addedToGraph (trace ?s1) @ map addr (drop (i + 1) (take n (LocalTUDecls ?s1)))"
      and t2: "traversed (trace s') = traversed (trace ?s1)"
      and h2: "handled (trace s') = handled (trace ?s1)"
      and e2: "engineEvents (trace s') = engineEvents (trace ?s1)"
      and fs2: "FunctionSummaries s' = FunctionSummaries ?s1"
      using "1.IH" [OF True inside n1] by blast
    have step: "drop i (take n (LocalTUDecls s)) =
                  ?D # drop (Suc i) (take n (LocalTUDecls ?s1))"
      using snapshot_step [OF True "1.prems", of ?app1] l1 by simp
    have loop: "callGraphBuildLoop env i n CG s =
                  Inr (CG @ drop i (take n (LocalTUDecls s)), s')"
      using True inside r step
      by (simp add: callGraphBuildLoop.simps [of env i n CG s])
    show ?thesis
      using loop l1 l2 m2 a2 t2 h2 e2 fs2 step
      by (simp add: addToCallGraph_eq proj_append proj_single)
  qed
qed


lemma getInliningModeForFunction_total:
  "\<not> shouldSkipFunction D V VT \<Longrightarrow> \<exists>IMode. getInliningModeForFunction env D V = Inr IMode"
  by (auto simp: getInliningModeForFunction_def shouldSkipFunction_def isa_ObjCMethodDecl_def
      split: DeclKind.splits if_splits)

lemma not_skipped:
  "\<not> shouldSkipFunction D V VT \<Longrightarrow> addr D \<notin> VT \<and> (isa_ObjCMethodDecl D \<or> addr D \<notin> V)"
  by (auto simp: shouldSkipFunction_def split: if_splits)

lemma callGraphLoop_total:
  "\<exists>V' VT' s' H. callGraphLoop env Ns V VT s = Inr (V', VT', s') \<and>
     handled (trace s') = handled (trace s) @ H \<and> distinct H \<and> set H \<inter> VT = {} \<and>
     VT' = VT \<union> set H \<and> V \<subseteq> V' \<and>
     (\<forall>a \<in> set H. \<exists>D. Some D \<in> set Ns \<and> addr D = a \<and> (isa_ObjCMethodDecl D \<or> a \<notin> V)) \<and>
     frame env s s'"
proof (induction Ns arbitrary: V VT s)
  case Nil
  then show ?case by (simp add: frame_refl)
next
  case (Cons N Ns)
  let ?s1 = "s\<lparr>NumFunctionTopLevel := NumFunctionTopLevel s + 1\<rparr>"
  have f1: "frame env s ?s1" and h1: "handled (trace ?s1) = handled (trace s)"
    by (simp_all add: frame_def)
  show ?case
  proof (cases "case N of None \<Rightarrow> True | Some D \<Rightarrow> shouldSkipFunction D V VT")
    case True
    then have eq: "callGraphLoop env (N # Ns) V VT s = callGraphLoop env Ns V VT ?s1"
      by (simp add: Let_def split: option.splits)
    obtain V' VT' s' H where r: "callGraphLoop env Ns V VT ?s1 = Inr (V', VT', s')"
      and p: "handled (trace s') = handled (trace ?s1) @ H" "distinct H" "set H \<inter> VT = {}"
        "VT' = VT \<union> set H" "V \<subseteq> V'"
        "\<forall>a \<in> set H. \<exists>D. Some D \<in> set Ns \<and> addr D = a \<and> (isa_ObjCMethodDecl D \<or> a \<notin> V)"
        "frame env ?s1 s'"
      using Cons.IH [of V VT ?s1] by blast
    have "\<forall>a \<in> set H. \<exists>D. Some D \<in> set (N # Ns) \<and> addr D = a \<and> (isa_ObjCMethodDecl D \<or> a \<notin> V)"
      using p(6) by auto
    then show ?thesis
      using eq r p(1-5) h1 frame_trans [OF f1 p(7)] by auto
  next
    case False
    then obtain D where N: "N = Some D" and ns: "\<not> shouldSkipFunction D V VT"
      by (auto split: option.splits)
    obtain IMode where im: "getInliningModeForFunction env D V = Inr IMode"
      using getInliningModeForFunction_total [OF ns] by blast
    let ?VC = "if InliningMode (Opts env) = All_Inlining then None else Some {}"
    obtain VC2 s2 where hc: "HandleCode env D AM_Path IMode ?VC ?s1 = Inr (VC2, s2)"
      and f2: "frame env ?s1 s2"
      and h2: "handled (trace s2) = handled (trace ?s1) @ [addr D]"
      using HandleCode_total [of AM_Path env D IMode ?VC ?s1] by auto
    let ?V1 = "V \<union> (case VC2 of Some VisitedCallees \<Rightarrow> VisitedCallees | None \<Rightarrow> {})"
    let ?VT1 = "insert (addr D) VT"
    have eq: "callGraphLoop env (N # Ns) V VT s = callGraphLoop env Ns ?V1 ?VT1 s2"
      using N ns im hc by (simp add: Let_def)
    obtain V' VT' s' H where r: "callGraphLoop env Ns ?V1 ?VT1 s2 = Inr (V', VT', s')"
      and p: "handled (trace s') = handled (trace s2) @ H" "distinct H" "set H \<inter> ?VT1 = {}"
        "VT' = ?VT1 \<union> set H" "?V1 \<subseteq> V'"
        "\<forall>a \<in> set H. \<exists>D. Some D \<in> set Ns \<and> addr D = a \<and> (isa_ObjCMethodDecl D \<or> a \<notin> ?V1)"
        "frame env s2 s'"
      using Cons.IH [of ?V1 ?VT1 s2] by blast
    let ?H = "addr D # H"
    have a: "handled (trace s') = handled (trace s) @ ?H"
      using p(1) h2 h1 by simp
    have b: "distinct ?H" using p(2,3) by auto
    have c: "set ?H \<inter> VT = {}" using p(3) not_skipped [OF ns] by auto
    have d: "VT' = VT \<union> set ?H" using p(4) by auto
    have e: "V \<subseteq> V'" using p(5) by auto
    have f: "\<forall>a \<in> set ?H. \<exists>D. Some D \<in> set (N # Ns) \<and> addr D = a \<and> (isa_ObjCMethodDecl D \<or> a \<notin> V)"
    proof
      fix a assume "a \<in> set ?H"
      then consider "a = addr D" | "a \<in> set H" by auto
      then show "\<exists>D. Some D \<in> set (N # Ns) \<and> addr D = a \<and> (isa_ObjCMethodDecl D \<or> a \<notin> V)"
      proof cases
        case 1
        then show ?thesis using N not_skipped [OF ns] by auto
      next
        case 2
        then obtain D' where "Some D' \<in> set Ns" "addr D' = a" "isa_ObjCMethodDecl D' \<or> a \<notin> ?V1"
          using p(6) by blast
        then show ?thesis by auto
      qed
    qed
    have g: "frame env s s'" using frame_trans [OF f1 frame_trans [OF f2 p(7)]] .
    have res: "callGraphLoop env (N # Ns) V VT s = Inr (V', VT', s')" using eq r by simp
    show ?thesis
      using res a b c d e f g
      by (intro exI [of _ V'] exI [of _ VT'] exI [of _ s'] exI [of _ ?H] conjI)
  qed
qed

lemma ActionExprEngine_callees:
  "getCFG env D \<noteq> None \<Longrightarrow> RelaxedLiveVariables env D \<Longrightarrow>
   fst (ActionExprEngine env D gc IMode (Some S) s) = Some (S \<union> engineCallees env D gc IMode)"
  by (auto simp: ActionExprEngine_def Let_def)

lemma RunPathSensitiveChecks_callees:
  assumes "getCFG env D \<noteq> None" and "RelaxedLiveVariables env D"
    and "gc \<in> set (gcAssumptions (getGC env))"
  shows "\<exists>C. fst (RunPathSensitiveChecks env D IMode (Some S) s) = Some C \<and>
              engineCallees env D gc IMode \<subseteq> C"
proof (cases "getGC env")
  case NonGC
  then show ?thesis
    using assms by (simp add: RunPathSensitiveChecks_def gcAssumptions_def ActionExprEngine_callees)
next
  case GCOnly
  then show ?thesis
    using assms by (simp add: RunPathSensitiveChecks_def gcAssumptions_def ActionExprEngine_callees)
next
  case HybridGC
  obtain VC1 s1 where first: "ActionExprEngine env D False IMode (Some S) s = (VC1, s1)"
    by (cases "ActionExprEngine env D False IMode (Some S) s")
  have vc1: "VC1 = Some (S \<union> engineCallees env D False IMode)"
    using ActionExprEngine_callees [OF assms(1,2), of False IMode S s] first by simp
  have "fst (RunPathSensitiveChecks env D IMode (Some S) s) =
          Some ((S \<union> engineCallees env D False IMode) \<union> engineCallees env D True IMode)"
    using ActionExprEngine_callees [OF assms(1,2), of True IMode "S \<union> engineCallees env D False IMode" s1]
    by (simp add: RunPathSensitiveChecks_def HybridGC first vc1)
  then show ?thesis
    by (cases gc) auto
qed


lemma HandleCode_callees:
  assumes "hasBody D" and "getModeForDecl env D M = AM_Path"
    and "hasPathSensitiveCheckers env"
    and "getCFG env D \<noteq> None" and "RelaxedLiveVariables env D"
    and "gc \<in> set (gcAssumptions (getGC env))"
    and "HandleCode env D M IMode (Some S) s = Inr (VC', s')"
  shows "\<exists>C. VC' = Some C \<and> engineCallees env D gc IMode \<subseteq> C"
proof -
  let ?s = "logEvent (CallHandleCode (addr D) M IMode) s"
  define s1 where "s1 = (case getCFG env D of
                           Some CFGSize \<Rightarrow>
                             ?s\<lparr>MaxCFGSize :=
                                 (if MaxCFGSize ?s < CFGSize then CFGSize else MaxCFGSize ?s)\<rparr>
                         | None \<Rightarrow> ?s)"
  define s2 where "s2 = (if AM_Path AND AM_Syntax \<noteq> 0
                         then logEvent (RunCheckersOnASTBody (addr D)) s1 else s1)"
  have disp: "DisplayFunction env D AM_Path = Inr ()"
    by (rule DisplayFunction_ok) simp
  have pathbit: "AM_Path AND AM_Path \<noteq> 0" by (simp add: AM_Path_def)
  have "HandleCode env D M IMode (Some S) s =
          (case RunPathSensitiveChecks env D IMode (Some S) s2 of
             (VC, s3) \<Rightarrow>
               Inr (VC, if IMode \<noteq> Inline_None
                        then s3\<lparr>NumFunctionsAnalyzed := NumFunctionsAnalyzed s3 + 1\<rparr>
                        else s3))"
    unfolding HandleCode_def Let_def s2_def s1_def
    using assms(1,2,3) disp pathbit by (simp add: AM_None_def AM_Path_def)
  then have "VC' = fst (RunPathSensitiveChecks env D IMode (Some S) s2)"
    using assms(7) by (simp split: prod.splits)
  then show ?thesis
    using RunPathSensitiveChecks_callees [OF assms(4,5,6), of IMode S s2] by simp
qed


lemma callGraphLoop_scenario:
  assumes "InliningMode (Opts env) \<noteq> All_Inlining"
    and "\<not> shouldSkipFunction A V VT"
    and "getInliningModeForFunction env A V = Inr IMode"
    and "hasBody A" and "getModeForDecl env A AM_Path = AM_Path"
    and "hasPathSensitiveCheckers env"
    and "getCFG env A \<noteq> None" and "RelaxedLiveVariables env A"
    and "gc \<in> set (gcAssumptions (getGC env))"
    and "b \<in> engineCallees env A gc IMode"
    and "\<forall>D. Some D \<in> set Ns \<and> addr D = b \<longrightarrow> \<not> isa_ObjCMethodDecl D"
  shows "\<exists>V' VT' s' H. callGraphLoop env (Some A # Ns) V VT s = Inr (V', VT', s') \<and>
           handled (trace s') = handled (trace s) @ addr A # H \<and> b \<notin> set H"
proof -
  let ?s1 = "s\<lparr>NumFunctionTopLevel := NumFunctionTopLevel s + 1\<rparr>"
  have h1: "handled (trace ?s1) = handled (trace s)" by simp
  obtain VC2 s2 where hc: "HandleCode env A AM_Path IMode (Some {}) ?s1 = Inr (VC2, s2)"
    and h2: "handled (trace s2) = handled (trace ?s1) @ [addr A]"
    using HandleCode_total [of AM_Path env A IMode "Some {}" ?s1] by auto
  obtain C where vc2: "VC2 = Some C" and bC: "b \<in> C"
    using HandleCode_callees [OF assms(4-9) hc] assms(10) by auto
  have eq: "callGraphLoop env (Some A # Ns) V VT s =
              callGraphLoop env Ns (V \<union> C) (insert (addr A) VT) s2"
    using assms(1,2,3) hc vc2 by (simp add: Let_def)
  obtain V' VT' s' H where r: "callGraphLoop env Ns (V \<union> C) (insert (addr A) VT) s2 = Inr (V', VT', s')"
    and p: "handled (trace s') = handled (trace s2) @ H"
      "\<forall>a \<in> set H. \<exists>D. Some D \<in> set Ns \<and> addr D = a \<and> (isa_ObjCMethodDecl D \<or> a \<notin> V \<union> C)"
    using callGraphLoop_total [of env Ns "V \<union> C" "insert (addr A) VT" s2] by blast
  have nb: "b \<notin> set H"
  proof
    assume "b \<in> set H"
    then obtain D where "Some D \<in> set Ns" "addr D = b" "isa_ObjCMethodDecl D \<or> b \<notin> V \<union> C"
      using p(2) by blast
    then show False using assms(11) bC by auto
  qed
  have res: "callGraphLoop env (Some A # Ns) V VT s = Inr (V', VT', s')" using eq r by simp
  have tr: "handled (trace s') = handled (trace s) @ addr A # H" using p(1) h2 h1 by simp
  show ?thesis using res tr nb by blast
qed


lemma HandleDeclsCallGraph_total:
  assumes "n \<le> length (LocalTUDecls s)"
  shows "\<exists>V' VT' s' app. HandleDeclsCallGraph env n s = Inr (V', VT', s') \<and>
           LocalTUDecls s' = LocalTUDecls s @ app \<and>
           RecVisitorMode s' = RecVisitorMode s \<and>
           addedToGraph (trace s') = addedToGraph (trace s) @ map addr (take n (LocalTUDecls s)) \<and>
           traversed (trace s') = traversed (trace s) \<and>
           (\<not> hasPathSensitiveCheckers env \<longrightarrow> engineEvents (trace s') = engineEvents (trace s))"
proof -
  obtain s1 app where b: "callGraphBuildLoop env 0 n [] s = Inr (take n (LocalTUDecls s), s1)"
    and l1: "LocalTUDecls s1 = LocalTUDecls s @ app"
    and m1: "RecVisitorMode s1 = RecVisitorMode s"
    and a1: "addedToGraph (trace s1) = addedToGraph (trace s) @ map addr (take n (LocalTUDecls s))"
    and t1: "traversed (trace s1) = traversed (trace s)"
    and e1: "engineEvents (trace s1) = engineEvents (trace s)"
    using callGraphBuildLoop_total [OF assms, of env 0 "[]"] by auto
  obtain V' VT' s' where c: "callGraphLoop env (rpoNodes env (take n (LocalTUDecls s))) {} {} s1 =
                                Inr (V', VT', s')"
    and f: "frame env s1 s'"
    using callGraphLoop_total [of env "rpoNodes env (take n (LocalTUDecls s))" "{}" "{}" s1]
    by blast
  have "HandleDeclsCallGraph env n s = Inr (V', VT', s')"
    by (simp add: HandleDeclsCallGraph_def b c)
  then show ?thesis
    using f l1 m1 a1 t1 e1 by (simp add: frame_def)
qed


lemma countCoverage_trace: "trace (countCoverage s) = trace s"
  by (simp add: countCoverage_def Let_def)

lemma HandleTranslationUnit_total:
  "\<exists>s'. HandleTranslationUnit env s = Inr s' \<and>
     (\<not> hasPathSensitiveCheckers env \<longrightarrow> engineEvents (trace s') = engineEvents (trace s)) \<and>
     (\<not> hasErrorOccurred env \<and> \<not> hasFatalErrorOccurred env \<longrightarrow>
        (\<exists>app. LocalTUDecls s' = LocalTUDecls s @ app) \<and>
        traversed (trace s') = traversed (trace s) @ map addr (LocalTUDecls s) \<and>
        addedToGraph (trace s') =
          addedToGraph (trace s) @ (if shouldInlineCall env then map addr (LocalTUDecls s) else []))"
proof (cases "hasErrorOccurred env \<or> hasFatalErrorOccurred env")
  case True
  then show ?thesis by (auto simp: HandleTranslationUnit_def)
next
  case False
  let ?s1 = "logEvent RunCheckersOnTranslationUnitDecl s"
  let ?s2 = "?s1\<lparr>RecVisitorMode :=
                  (if \<not> shouldInlineCall env then AM_Syntax OR AM_Path else AM_Syntax)\<rparr>"
  let ?n = "length (LocalTUDecls ?s2)"
  let ?L = "LocalTUDecls s"
  have ok2: "visitorModeOK env ?s2" by (simp add: visitorModeOK_def)
  have l2: "LocalTUDecls ?s2 = ?L" by (simp add: logEvent_simps)
  have e2: "engineEvents (trace ?s2) = engineEvents (trace s)"
    "traversed (trace ?s2) = traversed (trace s)"
    "addedToGraph (trace ?s2) = addedToGraph (trace s)"
    by (simp_all add: logEvent_simps proj_append proj_single)
  obtain s3 app3 where t: "traverseLoop env 0 ?n ?s2 = Inr s3"
    and l3: "LocalTUDecls s3 = LocalTUDecls ?s2 @ app3"
    and t3: "traversed (trace s3) =
               traversed (trace ?s2) @ map addr (drop 0 (take ?n (LocalTUDecls ?s2)))"
    and a3: "addedToGraph (trace s3) = addedToGraph (trace ?s2)"
    and e3: "\<not> hasPathSensitiveCheckers env \<longrightarrow> engineEvents (trace s3) = engineEvents (trace ?s2)"
    using traverseLoop_total [OF ok2, of ?n 0] by auto
  have n3: "?n \<le> length (LocalTUDecls s3)" using l3 by simp
  have tk: "take ?n (LocalTUDecls s3) = ?L" using l3 l2 by simp
  obtain s4 app4 where g: "(if shouldInlineCall env
                      then (case HandleDeclsCallGraph env ?n s3 of
                              Inl e \<Rightarrow> Inl e
                            | Inr r \<Rightarrow> Inr (snd (snd r)))
                      else Inr s3) = Inr s4"
    and l4: "LocalTUDecls s4 = LocalTUDecls s3 @ app4"
    and t4: "traversed (trace s4) = traversed (trace s3)"
    and a4: "addedToGraph (trace s4) =
               addedToGraph (trace s3) @ (if shouldInlineCall env then map addr ?L else [])"
    and e4: "\<not> hasPathSensitiveCheckers env \<longrightarrow> engineEvents (trace s4) = engineEvents (trace s3)"
  proof (cases "shouldInlineCall env")
    case True
    obtain V' VT' s4 app4 where "HandleDeclsCallGraph env ?n s3 = Inr (V', VT', s4)"
      and "LocalTUDecls s4 = LocalTUDecls s3 @ app4"
      and "traversed (trace s4) = traversed (trace s3)"
      and "addedToGraph (trace s4) =
             addedToGraph (trace s3) @ map addr (take ?n (LocalTUDecls s3))"
      and "\<not> hasPathSensitiveCheckers env \<longrightarrow> engineEvents (trace s4) = engineEvents (trace s3)"
      using HandleDeclsCallGraph_total [OF n3, of env] by blast
    then show ?thesis using that [of s4 app4] True tk by simp
  next
    case False
    then show ?thesis using that [of s3 "[]"] by simp
  qed
  let ?s5 = "countCoverage (logEvent RunCheckersOnEndOfTranslationUnit s4)"
  have l5: "LocalTUDecls ?s5 = LocalTUDecls s4"
    by (simp add: countCoverage_def Let_def logEvent_simps)
  have hu: "HandleTranslationUnit env s = Inr ?s5"
    using False t g
    by (simp add: HandleTranslationUnit_def Let_def)
  have c1: "\<not> hasPathSensitiveCheckers env \<longrightarrow> engineEvents (trace ?s5) = engineEvents (trace s)"
    using e2 e3 e4 by (simp add: countCoverage_trace logEvent_simps proj_append proj_single)
  have c2: "LocalTUDecls ?s5 = ?L @ (app3 @ app4)"
    using l5 l4 l3 l2 by simp
  have c3: "traversed (trace ?s5) = traversed (trace s) @ map addr ?L"
    using t4 t3 e2 l2 by (simp add: countCoverage_trace logEvent_simps proj_append proj_single)
  have c4: "addedToGraph (trace ?s5) =
              addedToGraph (trace s) @ (if shouldInlineCall env then map addr ?L else [])"
    using a4 a3 e2 by (simp add: countCoverage_trace logEvent_simps proj_append proj_single)
  show ?thesis using hu c1 c2 c3 c4 by blast
qed

lemma HandleCode_skip:
  "\<not> hasBody D \<or> getModeForDecl env D M = AM_None \<Longrightarrow>
   HandleCode env D M IMode VC s = Inr (VC, logEvent (CallHandleCode (addr D) M IMode) s)"
  by (cases "hasBody D") (simp_all add: HandleCode_def Let_def)

lemma HandleCode_no_engine:
  assumes "\<not> hasPathSensitiveCheckers env"
    and "HandleCode env D M IMode VC s = Inr (VC', s')"
  shows "VC' = VC \<and> engineEvents (trace s') = engineEvents (trace s)"
proof (cases "hasBody D \<and> getModeForDecl env D M \<noteq> AM_None")
  case False
  then have "HandleCode env D M IMode VC s = Inr (VC, logEvent (CallHandleCode (addr D) M IMode) s)"
    using HandleCode_skip [of D env M IMode VC s] by blast
  then show ?thesis
    using assms(2) by (auto simp: logEvent_simps proj_append proj_single)
next
  case True
  let ?s = "logEvent (CallHandleCode (addr D) M IMode) s"
  let ?M = "getModeForDecl env D M"
  define s1 where "s1 = (case getCFG env D of
                           Some CFGSize \<Rightarrow>
                             ?s\<lparr>MaxCFGSize :=
                                 (if MaxCFGSize ?s < CFGSize then CFGSize else MaxCFGSize ?s)\<rparr>
                         | None \<Rightarrow> ?s)"
  define s2 where "s2 = (if ?M AND AM_Syntax \<noteq> 0
                         then logEvent (RunCheckersOnASTBody (addr D)) s1 else s1)"
  have e1: "engineEvents (trace s1) = engineEvents (trace s)"
    by (simp add: s1_def logEvent_simps proj_append proj_single split: option.splits)
  have e2: "engineEvents (trace s2) = engineEvents (trace s)"
    using e1 by (simp add: s2_def logEvent_simps proj_append proj_single)
  have "HandleCode env D M IMode VC s =
          (case DisplayFunction env D ?M of Inl e \<Rightarrow> Inl e | Inr u \<Rightarrow> Inr (VC, s2))"
    unfolding HandleCode_def Let_def s2_def s1_def
    using True assms(1) by simp
  then have "VC' = VC \<and> s' = s2"
    using assms(2) by (simp split: sum.splits)
  then show ?thesis using e2 by simp
qed


lemma callGraphLoop_root:
  "callGraphLoop env (None # Ns) V VT s =
     callGraphLoop env Ns V VT (s\<lparr>NumFunctionTopLevel := NumFunctionTopLevel s + 1\<rparr>)"
  by (simp add: Let_def)

lemma callGraphLoop_skip:
  "shouldSkipFunction D V VT \<Longrightarrow>
   callGraphLoop env (Some D # Ns) V VT s =
     callGraphLoop env Ns V VT (s\<lparr>NumFunctionTopLevel := NumFunctionTopLevel s + 1\<rparr>)"
  by (simp add: Let_def)

lemma callGraphLoop_analyze:
  assumes "\<not> shouldSkipFunction D V VT"
  shows "\<exists>IMode VC s2. getInliningModeForFunction env D V = Inr IMode \<and>
           HandleCode env D AM_Path IMode
             (if InliningMode (Opts env) = All_Inlining then None else Some {})
             (s\<lparr>NumFunctionTopLevel := NumFunctionTopLevel s + 1\<rparr>) = Inr (VC, s2) \<and>
           handled (trace s2) = handled (trace s) @ [addr D] \<and>
           callGraphLoop env (Some D # Ns) V VT s =
             callGraphLoop env Ns
               (V \<union> (case VC of Some VisitedCallees \<Rightarrow> VisitedCallees | None \<Rightarrow> {}))
               (insert (addr D) VT) s2"
proof -
  let ?s1 = "s\<lparr>NumFunctionTopLevel := NumFunctionTopLevel s + 1\<rparr>"
  let ?VC = "if InliningMode (Opts env) = All_Inlining then None else Some {}"
  obtain IMode where im: "getInliningModeForFunction env D V = Inr IMode"
    using getInliningModeForFunction_total [OF assms] by blast
  obtain VC2 s2 where hc: "HandleCode env D AM_Path IMode ?VC ?s1 = Inr (VC2, s2)"
    and h2: "handled (trace s2) = handled (trace ?s1) @ [addr D]"
    using HandleCode_total [of AM_Path env D IMode ?VC ?s1] by auto
  have eq: "callGraphLoop env (Some D # Ns) V VT s =
              callGraphLoop env Ns
                (V \<union> (case VC2 of Some VisitedCallees \<Rightarrow> VisitedCallees | None \<Rightarrow> {}))
                (insert (addr D) VT) s2"
    using assms im hc by (simp add: Let_def)
  have h: "handled (trace s2) = handled (trace s) @ [addr D]" using h2 by simp
  show ?thesis using im hc h eq by blast
qed

lemma callGraphLoop_complete:
  "callGraphLoop env Ns V VT s = Inr (V', VT', s') \<Longrightarrow>
   V \<subseteq> V' \<and> VT \<subseteq> VT' \<and>
   (\<forall>B. Some B \<in> set Ns \<longrightarrow> addr B \<in> VT' \<or> (\<not> isa_ObjCMethodDecl B \<and> addr B \<in> V'))"
proof (induction Ns arbitrary: V VT s)
  case Nil
  then show ?case by simp
next
  case (Cons N Ns)
  let ?s1 = "s\<lparr>NumFunctionTopLevel := NumFunctionTopLevel s + 1\<rparr>"
  show ?case
  proof (cases N)
    case None
    then have "callGraphLoop env Ns V VT ?s1 = Inr (V', VT', s')"
      using Cons.prems callGraphLoop_root [of env Ns V VT s] by simp
    from Cons.IH [OF this] show ?thesis using None by auto
  next
    case (Some D)
    show ?thesis
    proof (cases "shouldSkipFunction D V VT")
      case True
      then have r: "callGraphLoop env Ns V VT ?s1 = Inr (V', VT', s')"
        using Cons.prems Some callGraphLoop_skip [of D V VT env Ns s] by simp
      have here: "addr D \<in> VT \<or> (\<not> isa_ObjCMethodDecl D \<and> addr D \<in> V)"
        using True by (auto simp: shouldSkipFunction_def split: if_splits)
      from Cons.IH [OF r] show ?thesis using Some here by auto
    next
      case False
      obtain VC s2 where r: "callGraphLoop env (Some D # Ns) V VT s =
             callGraphLoop env Ns
               (V \<union> (case VC of Some VisitedCallees \<Rightarrow> VisitedCallees | None \<Rightarrow> {}))
               (insert (addr D) VT) s2"
        using callGraphLoop_analyze [OF False, of env s Ns] by blast
      then have "callGraphLoop env Ns
               (V \<union> (case VC of Some VisitedCallees \<Rightarrow> VisitedCallees | None \<Rightarrow> {}))
               (insert (addr D) VT) s2 = Inr (V', VT', s')"
        using Cons.prems Some by simp
      from Cons.IH [OF this] show ?thesis using Some by auto
    qed
  qed
qed

lemma ActionExprEngine_skip:
  "getCFG env D = None \<or> \<not> RelaxedLiveVariables env D \<Longrightarrow>
   ActionExprEngine env D gc IMode VC s =
     (VC, logEvent (CallActionExprEngine (addr D) gc IMode) s)"
  by (auto simp: ActionExprEngine_def Let_def)

lemma RunPathSensitiveChecks_skip:
  assumes "getCFG env D = None \<or> \<not> RelaxedLiveVariables env D"
  shows "\<exists>s'. RunPathSensitiveChecks env D IMode VC s = (VC, s') \<and>
           filter engineRun (trace s') = filter engineRun (trace s) \<and>
           FunctionSummaries s' = FunctionSummaries s \<and>
           handled (trace s') = handled (trace s)"
  by (cases "getGC env")
     (simp_all add: RunPathSensitiveChecks_def ActionExprEngine_skip [OF assms]
        logEvent_simps proj_append proj_single)

lemma HandleCode_engine_skipped:
  assumes "M = AM_Syntax \<or> M = AM_Path \<or> M = (AM_Syntax OR AM_Path)"
    and "getCFG env D = None \<or> \<not> RelaxedLiveVariables env D"
  shows "\<exists>s2. HandleCode env D M IMode VC s = Inr (VC, s2) \<and>
           filter engineRun (trace s2) = filter engineRun (trace s) \<and>
           FunctionSummaries s2 = FunctionSummaries s \<and>
           handled (trace s2) = handled (trace s) @ [addr D]"
proof -
  let ?s = "logEvent (CallHandleCode (addr D) M IMode) s"
  have base: "filter engineRun (trace ?s) = filter engineRun (trace s) \<and>
              FunctionSummaries ?s = FunctionSummaries s \<and>
              handled (trace ?s) = handled (trace s) @ [addr D]"
    by (simp add: logEvent_simps proj_append proj_single)
  show ?thesis
  proof (cases "hasBody D \<and> getModeForDecl env D M \<noteq> AM_None")
    case False
    then have "HandleCode env D M IMode VC s = Inr (VC, ?s)"
      using HandleCode_skip [of D env M IMode VC s] by blast
    then show ?thesis using base by blast
  next
    case True
    let ?M = "getModeForDecl env D M"
    have okM: "?M = AM_Syntax \<or> ?M = AM_Path \<or> ?M = (AM_Syntax OR AM_Path)"
      using mode_after_resolver [OF assms(1), of env D] True by auto
    have disp: "DisplayFunction env D ?M = Inr ()"
      by (rule DisplayFunction_ok [OF okM])
    define s1 where "s1 = (case getCFG env D of
                           Some CFGSize \<Rightarrow>
                             ?s\<lparr>MaxCFGSize :=
                                 (if MaxCFGSize ?s < CFGSize then CFGSize else MaxCFGSize ?s)\<rparr>
                         | None \<Rightarrow> ?s)"
    define s2 where "s2 = (if ?M AND AM_Syntax \<noteq> 0
                         then logEvent (RunCheckersOnASTBody (addr D)) s1 else s1)"
    have f1: "filter engineRun (trace s1) = filter engineRun (trace ?s) \<and>
              FunctionSummaries s1 = FunctionSummaries ?s \<and>
              handled (trace s1) = handled (trace ?s)"
      by (simp add: s1_def split: option.splits)
    have f2: "filter engineRun (trace s2) = filter engineRun (trace s1) \<and>
              FunctionSummaries s2 = FunctionSummaries s1 \<and>
              handled (trace s2) = handled (trace s1)"
      by (simp add: s2_def logEvent_simps proj_append proj_single)
    have f02: "filter engineRun (trace s2) = filter engineRun (trace s) \<and>
              FunctionSummaries s2 = FunctionSummaries s \<and>
              handled (trace s2) = handled (trace s) @ [addr D]"
      using base f1 f2 by simp
    show ?thesis
    proof (cases "?M AND AM_Path \<noteq> 0 \<and> hasPathSensitiveCheckers env")
      case False
      have "HandleCode env D M IMode VC s = Inr (VC, s2)"
        unfolding HandleCode_def Let_def s2_def s1_def
        using True disp False by (cases "?M AND AM_Path = 0") simp_all
      then show ?thesis using f02 by blast
    next
      case path: True
      obtain s3 where r: "RunPathSensitiveChecks env D IMode VC s2 = (VC, s3)"
        and f3: "filter engineRun (trace s3) = filter engineRun (trace s2)"
          "FunctionSummaries s3 = FunctionSummaries s2"
          "handled (trace s3) = handled (trace s2)"
        using RunPathSensitiveChecks_skip [OF assms(2), of IMode VC s2] by blast
      let ?s4 = "if IMode \<noteq> Inline_None
                 then s3\<lparr>NumFunctionsAnalyzed := NumFunctionsAnalyzed s3 + 1\<rparr> else s3"
      have "HandleCode env D M IMode VC s =
                (case RunPathSensitiveChecks env D IMode VC s2 of
                   (VC, s3) \<Rightarrow>
                     Inr (VC, if IMode \<noteq> Inline_None
                              then s3\<lparr>NumFunctionsAnalyzed := NumFunctionsAnalyzed s3 + 1\<rparr>
                              else s3))"
        unfolding HandleCode_def Let_def s2_def s1_def
        using True disp path by simp
      then have hc: "HandleCode env D M IMode VC s = Inr (VC, ?s4)" by (simp add: r)
      have "filter engineRun (trace ?s4) = filter engineRun (trace s) \<and>
              FunctionSummaries ?s4 = FunctionSummaries s \<and>
              handled (trace ?s4) = handled (trace s) @ [addr D]"
        using f02 f3 by simp
      then show ?thesis using hc by blast
    qed
  qed
qed

section \<open>Functions whose name starts with \<open>__inline\<close>\<close>

text \<open>
  C10, as the code has it. For a function declaration whose identifier starts with
  \<open>__inline\<close>, the visitor \<open>VisitFunctionDecl\<close> returns with the state as it was: it does
  not call \<open>HandleCode\<close>, so the syntax pass runs neither the checks on the body nor the
  path-sensitive analysis for it, whatever its body and location. The whole visit of
  such a declaration is that of \<open>VisitDecl\<close>, which runs the declaration-level checks on
  it exactly when the Syntax bit of its resolved mode is set, and adds nothing else to
  the trace.
\<close>

theorem C10_inline_prefix_not_handled:
  assumes "getIdentifier FD = Some Name" and "startswith Name ''__inline''"
  shows "VisitFunctionDecl env FD s = Inr s
         \<and> WalkUpFrom env FD s = Inr (VisitDecl env FD s)
         \<and> (trace (VisitDecl env FD s) = trace s \<or>
              trace (VisitDecl env FD s) = trace s @ [RunCheckersOnASTDecl (addr FD)])
         \<and> trace (VisitDecl env FD s) =
              trace s @ (if getModeForDecl env FD (RecVisitorMode s) AND AM_Syntax \<noteq> 0
                         then [RunCheckersOnASTDecl (addr FD)] else [])
         \<and> handled (trace (VisitDecl env FD s)) = handled (trace s)
         \<and> engineEvents (trace (VisitDecl env FD s)) = engineEvents (trace s)"
proof -
  have v: "VisitFunctionDecl env FD s' = Inr s'" for s'
    using assms by (simp add: VisitFunctionDecl_def)
  have k: "\<exists>II. kind FD = FunctionDecl II"
    using assms(1) by (auto simp: getIdentifier_def split: DeclKind.splits)
  have w: "WalkUpFrom env FD s = Inr (VisitDecl env FD s)"
    using k v by (auto simp: WalkUpFrom_def Let_def)
  have tr: "trace (VisitDecl env FD s) =
              trace s @ (if getModeForDecl env FD (RecVisitorMode s) AND AM_Syntax \<noteq> 0
                         then [RunCheckersOnASTDecl (addr FD)] else [])"
    by (simp add: VisitDecl_def Let_def logEvent_def)
  have d: "trace (VisitDecl env FD s) = trace s \<or>
              trace (VisitDecl env FD s) = trace s @ [RunCheckersOnASTDecl (addr FD)]"
    using tr by simp
  have h: "handled (trace (VisitDecl env FD s)) = handled (trace s)"
    "engineEvents (trace (VisitDecl env FD s)) = engineEvents (trace s)"
    by (simp_all add: tr proj_append proj_single)
  show ?thesis using v w d tr h by simp
qed

theorem C10_inline_prefix_witness:
  "getIdentifier ex_inline = Some ''__inline_memcpy''
   \<and> startswith ''__inline_memcpy'' ''__inline''
   \<and> hasBody ex_inline \<and> isThisDeclarationADefinition ex_inline
   \<and> isFromMainFile ex_SM (getExpansionLoc ex_SM (getLocation ex_inline))
   \<and> VisitFunctionDecl ex_env ex_inline (ex_state\<lparr>RecVisitorMode := 1\<rparr>)
       = Inr (ex_state\<lparr>RecVisitorMode := 1\<rparr>)
   \<and> map_sum id trace (WalkUpFrom ex_env ex_inline (ex_state\<lparr>RecVisitorMode := 1\<rparr>))
       = Inr [RunCheckersOnASTDecl 9]"
  using C10_inline_prefix_not_handled [of ex_inline "''__inline_memcpy''" ex_env
      "ex_state\<lparr>RecVisitorMode := 1\<rparr>"]
  by (simp add: ex_defs model_defs)

text \<open>
  C10 as stated says that such a function is never passed to \<open>HandleCode\<close> and receives
  no structural analysis. The visit of one in the main file runs the declaration-level
  checks on it; and the call-graph pass has no test of the name: when the call graph
  (built outside the file) has a node for it, the pass hands it to \<open>HandleCode\<close> and
  the engine runs on it.
\<close>

theorem C10_inline_still_analyzed:
  "getIdentifier ex_inline = Some ''__inline_memcpy''
   \<and> startswith ''__inline_memcpy'' ''__inline''
   \<and> map_sum id trace (WalkUpFrom ex_env ex_inline (ex_state\<lparr>RecVisitorMode := 1\<rparr>))
       = Inr [RunCheckersOnASTDecl 9]
   \<and> map_sum id trace (HandleTranslationUnit ex_env (ex_state\<lparr>LocalTUDecls := [ex_inline]\<rparr>))
       = Inr [RunCheckersOnTranslationUnitDecl, CallTraverseDecl 9, RunCheckersOnASTDecl 9,
              AddToCallGraph 9, CallHandleCode 9 2 Inline_All,
              CallActionExprEngine 9 False Inline_All, ExecuteWorkList 9 False Inline_All,
              CallActionExprEngine 9 True Inline_All, ExecuteWorkList 9 True Inline_All,
              RunCheckersOnEndOfTranslationUnit]"
  by (simp add: model_defs ex_defs)

section \<open>The call-graph pass\<close>

text \<open>
  C1, as the code has it. A node's declaration is skipped exactly when it is in
  \<open>VisitedAsTopLevel\<close>, or it is not a method and it is in \<open>Visited\<close>: the predicate
  \<open>shouldSkipFunction\<close> is this condition, and the loop follows it at every node. The
  root node and a node that meets the condition only count in the statistic, and the
  loop goes on with the remaining nodes and the same two sets; a node that does not
  meet it is passed to \<open>HandleCode\<close> with the Path mode and its inlining mode, the
  callees reported are merged into \<open>Visited\<close>, its address is added to
  \<open>VisitedAsTopLevel\<close>, and the loop goes on with the remaining nodes. The loop over the
  nodes always returns; the declarations it passes to \<open>HandleCode\<close> (the list \<open>H\<close>) are
  pairwise distinct, none was in \<open>VisitedAsTopLevel\<close> before, all are in it afterwards,
  and each is a node that is a method or was not in \<open>Visited\<close>, so a declaration analyzed
  at top level is never processed again; \<open>Visited\<close> only grows; and every node ends in
  \<open>VisitedAsTopLevel\<close>, or is not a method and is in \<open>Visited\<close>. When the callee accumulator is supplied (the option \<open>InliningMode\<close> is not
  \<open>All\<close>), the engine runs on a node \<open>A\<close> that is not skipped and inlines the
  declaration at address \<open>b\<close>, and the later nodes at that address are not methods,
  none of them is scheduled as a top-level entry after \<open>A\<close>.
\<close>

theorem C1_skip_and_schedule:
  "(shouldSkipFunction D Visited VisitedAsTopLevel \<longleftrightarrow>
      addr D \<in> VisitedAsTopLevel \<or> (\<not> isa_ObjCMethodDecl D \<and> addr D \<in> Visited))
   \<and> callGraphLoop env (None # Ns) V VT s =
       callGraphLoop env Ns V VT (s\<lparr>NumFunctionTopLevel := NumFunctionTopLevel s + 1\<rparr>)
   \<and> (addr D \<in> VT \<or> (\<not> isa_ObjCMethodDecl D \<and> addr D \<in> V) \<longrightarrow>
        callGraphLoop env (Some D # Ns) V VT s =
          callGraphLoop env Ns V VT (s\<lparr>NumFunctionTopLevel := NumFunctionTopLevel s + 1\<rparr>))
   \<and> (\<not> (addr D \<in> VT \<or> (\<not> isa_ObjCMethodDecl D \<and> addr D \<in> V)) \<longrightarrow>
        (\<exists>IM VC s2. getInliningModeForFunction env D V = Inr IM \<and>
           HandleCode env D AM_Path IM
             (if InliningMode (Opts env) = All_Inlining then None else Some {})
             (s\<lparr>NumFunctionTopLevel := NumFunctionTopLevel s + 1\<rparr>) = Inr (VC, s2) \<and>
           handled (trace s2) = handled (trace s) @ [addr D] \<and>
           callGraphLoop env (Some D # Ns) V VT s =
             callGraphLoop env Ns
               (V \<union> (case VC of Some VisitedCallees \<Rightarrow> VisitedCallees | None \<Rightarrow> {}))
               (insert (addr D) VT) s2))
   \<and> (\<exists>V' VT' s' H. callGraphLoop env Ns V VT s = Inr (V', VT', s') \<and>
          handled (trace s') = handled (trace s) @ H \<and> distinct H \<and> set H \<inter> VT = {} \<and>
          VT' = VT \<union> set H \<and> V \<subseteq> V' \<and>
          (\<forall>a \<in> set H. \<exists>B. Some B \<in> set Ns \<and> addr B = a \<and> (isa_ObjCMethodDecl B \<or> a \<notin> V)) \<and>
          (\<forall>B. Some B \<in> set Ns \<longrightarrow>
             addr B \<in> VT' \<or> (\<not> isa_ObjCMethodDecl B \<and> addr B \<in> V')))
   \<and> (InliningMode (Opts env) \<noteq> All_Inlining \<and> \<not> shouldSkipFunction A V VT \<and>
        getInliningModeForFunction env A V = Inr IMode \<and>
        hasBody A \<and> getModeForDecl env A AM_Path = AM_Path \<and> hasPathSensitiveCheckers env \<and>
        getCFG env A \<noteq> None \<and> RelaxedLiveVariables env A \<and>
        gc \<in> set (gcAssumptions (getGC env)) \<and> b \<in> engineCallees env A gc IMode \<and>
        (\<forall>B. Some B \<in> set Ns \<and> addr B = b \<longrightarrow> \<not> isa_ObjCMethodDecl B)
        \<longrightarrow> (\<exists>V' VT' s' H. callGraphLoop env (Some A # Ns) V VT s = Inr (V', VT', s') \<and>
               handled (trace s') = handled (trace s) @ addr A # H \<and> b \<notin> set H))"
proof -
  have skip_iff: "shouldSkipFunction D' X Y \<longleftrightarrow>
      addr D' \<in> Y \<or> (\<not> isa_ObjCMethodDecl D' \<and> addr D' \<in> X)" for D' X Y
    by (simp add: shouldSkipFunction_def)
  have p1: "shouldSkipFunction D Visited VisitedAsTopLevel \<longleftrightarrow>
      addr D \<in> VisitedAsTopLevel \<or> (\<not> isa_ObjCMethodDecl D \<and> addr D \<in> Visited)"
    by (rule skip_iff)
  have p2: "callGraphLoop env (None # Ns) V VT s =
       callGraphLoop env Ns V VT (s\<lparr>NumFunctionTopLevel := NumFunctionTopLevel s + 1\<rparr>)"
    by (rule callGraphLoop_root)
  have p3: "addr D \<in> VT \<or> (\<not> isa_ObjCMethodDecl D \<and> addr D \<in> V) \<longrightarrow>
        callGraphLoop env (Some D # Ns) V VT s =
          callGraphLoop env Ns V VT (s\<lparr>NumFunctionTopLevel := NumFunctionTopLevel s + 1\<rparr>)"
    using callGraphLoop_skip [of D V VT env Ns s] skip_iff [of D V VT] by blast
  have p4: "\<not> (addr D \<in> VT \<or> (\<not> isa_ObjCMethodDecl D \<and> addr D \<in> V)) \<longrightarrow>
        (\<exists>IM VC s2. getInliningModeForFunction env D V = Inr IM \<and>
           HandleCode env D AM_Path IM
             (if InliningMode (Opts env) = All_Inlining then None else Some {})
             (s\<lparr>NumFunctionTopLevel := NumFunctionTopLevel s + 1\<rparr>) = Inr (VC, s2) \<and>
           handled (trace s2) = handled (trace s) @ [addr D] \<and>
           callGraphLoop env (Some D # Ns) V VT s =
             callGraphLoop env Ns
               (V \<union> (case VC of Some VisitedCallees \<Rightarrow> VisitedCallees | None \<Rightarrow> {}))
               (insert (addr D) VT) s2)"
  proof
    assume "\<not> (addr D \<in> VT \<or> (\<not> isa_ObjCMethodDecl D \<and> addr D \<in> V))"
    then have "\<not> shouldSkipFunction D V VT" using skip_iff [of D V VT] by simp
    then show "\<exists>IM VC s2. getInliningModeForFunction env D V = Inr IM \<and>
           HandleCode env D AM_Path IM
             (if InliningMode (Opts env) = All_Inlining then None else Some {})
             (s\<lparr>NumFunctionTopLevel := NumFunctionTopLevel s + 1\<rparr>) = Inr (VC, s2) \<and>
           handled (trace s2) = handled (trace s) @ [addr D] \<and>
           callGraphLoop env (Some D # Ns) V VT s =
             callGraphLoop env Ns
               (V \<union> (case VC of Some VisitedCallees \<Rightarrow> VisitedCallees | None \<Rightarrow> {}))
               (insert (addr D) VT) s2"
      by (rule callGraphLoop_analyze)
  qed
  have p5: "\<exists>V' VT' s' H. callGraphLoop env Ns V VT s = Inr (V', VT', s') \<and>
          handled (trace s') = handled (trace s) @ H \<and> distinct H \<and> set H \<inter> VT = {} \<and>
          VT' = VT \<union> set H \<and> V \<subseteq> V' \<and>
          (\<forall>a \<in> set H. \<exists>B. Some B \<in> set Ns \<and> addr B = a \<and> (isa_ObjCMethodDecl B \<or> a \<notin> V)) \<and>
          (\<forall>B. Some B \<in> set Ns \<longrightarrow>
             addr B \<in> VT' \<or> (\<not> isa_ObjCMethodDecl B \<and> addr B \<in> V'))"
  proof -
    obtain V' VT' s' H where r: "callGraphLoop env Ns V VT s = Inr (V', VT', s')"
      and q: "handled (trace s') = handled (trace s) @ H" "distinct H" "set H \<inter> VT = {}"
        "VT' = VT \<union> set H" "V \<subseteq> V'"
        "\<forall>a \<in> set H. \<exists>B. Some B \<in> set Ns \<and> addr B = a \<and> (isa_ObjCMethodDecl B \<or> a \<notin> V)"
      using callGraphLoop_total [of env Ns V VT s] by blast
    have c: "\<forall>B. Some B \<in> set Ns \<longrightarrow>
             addr B \<in> VT' \<or> (\<not> isa_ObjCMethodDecl B \<and> addr B \<in> V')"
      using callGraphLoop_complete [OF r] by blast
    show ?thesis
      using r q c
      by (intro exI [of _ V'] exI [of _ VT'] exI [of _ s'] exI [of _ H] conjI)
  qed
  have p6: "InliningMode (Opts env) \<noteq> All_Inlining \<and> \<not> shouldSkipFunction A V VT \<and>
        getInliningModeForFunction env A V = Inr IMode \<and>
        hasBody A \<and> getModeForDecl env A AM_Path = AM_Path \<and> hasPathSensitiveCheckers env \<and>
        getCFG env A \<noteq> None \<and> RelaxedLiveVariables env A \<and>
        gc \<in> set (gcAssumptions (getGC env)) \<and> b \<in> engineCallees env A gc IMode \<and>
        (\<forall>B. Some B \<in> set Ns \<and> addr B = b \<longrightarrow> \<not> isa_ObjCMethodDecl B)
        \<longrightarrow> (\<exists>V' VT' s' H. callGraphLoop env (Some A # Ns) V VT s = Inr (V', VT', s') \<and>
               handled (trace s') = handled (trace s) @ addr A # H \<and> b \<notin> set H)"
  proof
    assume h: "InliningMode (Opts env) \<noteq> All_Inlining \<and> \<not> shouldSkipFunction A V VT \<and>
        getInliningModeForFunction env A V = Inr IMode \<and>
        hasBody A \<and> getModeForDecl env A AM_Path = AM_Path \<and> hasPathSensitiveCheckers env \<and>
        getCFG env A \<noteq> None \<and> RelaxedLiveVariables env A \<and>
        gc \<in> set (gcAssumptions (getGC env)) \<and> b \<in> engineCallees env A gc IMode \<and>
        (\<forall>B. Some B \<in> set Ns \<and> addr B = b \<longrightarrow> \<not> isa_ObjCMethodDecl B)"
    show "\<exists>V' VT' s' H. callGraphLoop env (Some A # Ns) V VT s = Inr (V', VT', s') \<and>
               handled (trace s') = handled (trace s) @ addr A # H \<and> b \<notin> set H"
      by (rule callGraphLoop_scenario [of env A V VT IMode gc b Ns s]) (use h in simp_all)
  qed
  show ?thesis using p1 p2 p3 p4 p5 p6 by (intro conjI)
qed

theorem C1_schedule_witness:
  "InliningMode (Opts ex_env) \<noteq> All_Inlining \<and> \<not> shouldSkipFunction ex_A {} {}
   \<and> 2 \<in> engineCallees ex_env ex_A False Inline_All
   \<and> 3 \<in> engineCallees ex_env ex_A False Inline_All
   \<and> \<not> isa_ObjCMethodDecl ex_B \<and> \<not> isa_ObjCMethodDecl ex_C
   \<and> map_sum id (handled \<circ> trace \<circ> snd \<circ> snd)
        (callGraphLoop ex_env [None, Some ex_A, Some ex_B, Some ex_C] {} {} ex_state) = Inr [1]
   \<and> map_sum id fst
        (callGraphLoop ex_env [None, Some ex_A, Some ex_B, Some ex_C] {} {} ex_state) = Inr {2, 3}
   \<and> map_sum id (fst \<circ> snd)
        (callGraphLoop ex_env [None, Some ex_A, Some ex_B, Some ex_C] {} {} ex_state) = Inr {1}
   \<and> map_sum id (handled \<circ> trace \<circ> snd \<circ> snd)
        (callGraphLoop ex_env [Some ex_init, Some ex_A, Some ex_B] {7, 2} {} ex_state) = Inr [7, 1]"
  using C1_skip_and_schedule [where D = ex_A and Visited = "{}" and VisitedAsTopLevel = "{}" and env = ex_env
      and Ns = "[Some ex_B, Some ex_C]" and V = "{}" and VT = "{}" and s = ex_state
      and A = ex_A and IMode = Inline_All and gc = False and b = 2]
    C1_skip_and_schedule [where D = ex_B and env = ex_env
      and Ns = "[Some ex_C]" and V = "{2, 3}" and VT = "{1}" and s = ex_state
      and A = ex_A and IMode = Inline_All and gc = False and b = 2]
  by (simp add: model_defs ex_defs)

text \<open>
  C1 as stated, with inlining enabled only: under the option \<open>InliningMode = All\<close> the
  accumulator is a null pointer, \<open>Visited\<close> stays empty, and the functions at addresses 2
  and 3, which the engine inlined during the run on the function at address 1, are
  scheduled as top-level entries after it.
\<close>

theorem C1_all_inlining_reschedules:
  "shouldInlineCall ex_env_all
   \<and> 2 \<in> engineCallees ex_env_all ex_A False Inline_All
   \<and> 3 \<in> engineCallees ex_env_all ex_A False Inline_All
   \<and> \<not> isa_ObjCMethodDecl ex_B \<and> \<not> isa_ObjCMethodDecl ex_C
   \<and> map_sum id (trace \<circ> snd \<circ> snd)
        (callGraphLoop ex_env_all [None, Some ex_A, Some ex_B, Some ex_C] {} {} ex_state) =
      Inr [CallHandleCode 1 2 Inline_All,
           CallActionExprEngine 1 False Inline_All, ExecuteWorkList 1 False Inline_All,
           CallActionExprEngine 1 True Inline_All, ExecuteWorkList 1 True Inline_All,
           CallHandleCode 2 2 Inline_All,
           CallActionExprEngine 2 False Inline_All, ExecuteWorkList 2 False Inline_All,
           CallActionExprEngine 2 True Inline_All, ExecuteWorkList 2 True Inline_All,
           CallHandleCode 3 2 Inline_All,
           CallActionExprEngine 3 False Inline_All, ExecuteWorkList 3 False Inline_All,
           CallActionExprEngine 3 True Inline_All, ExecuteWorkList 3 True Inline_All]"
  by (simp add: model_defs ex_defs)

section \<open>The loops over the declaration store\<close>

text \<open>
  C4. Both loops run by index up to a length \<open>n\<close> read before the loop, which is at most
  the length of the store. Whatever is appended to the store while a loop runs, the
  loop never reads outside the store, it processes exactly the first \<open>n\<close> entries of the
  store as it was, each once and in order, and the entries present before are still
  there, followed by the appended ones. In \<open>HandleTranslationUnit\<close>, where \<open>n\<close> is the
  length of the store before the first loop, the syntax pass traverses exactly the
  declarations of the store as it was, and the call-graph build adds exactly these.
\<close>

theorem C4_snapshot_loops:
  "(visitorModeOK env s \<and> n \<le> length (LocalTUDecls s) \<longrightarrow>
      (\<exists>s' app. traverseLoop env 0 n s = Inr s' \<and>
         LocalTUDecls s' = LocalTUDecls s @ app \<and>
         traversed (trace s') = traversed (trace s) @ map addr (take n (LocalTUDecls s))))
   \<and> (n \<le> length (LocalTUDecls s) \<longrightarrow>
      (\<exists>s' app. callGraphBuildLoop env 0 n [] s = Inr (take n (LocalTUDecls s), s') \<and>
         LocalTUDecls s' = LocalTUDecls s @ app \<and>
         addedToGraph (trace s') = addedToGraph (trace s) @ map addr (take n (LocalTUDecls s))))
   \<and> (\<not> hasErrorOccurred env \<and> \<not> hasFatalErrorOccurred env \<longrightarrow>
      (\<exists>s' app. HandleTranslationUnit env s = Inr s' \<and>
         LocalTUDecls s' = LocalTUDecls s @ app \<and>
         traversed (trace s') = traversed (trace s) @ map addr (LocalTUDecls s) \<and>
         addedToGraph (trace s') =
           addedToGraph (trace s) @ (if shouldInlineCall env then map addr (LocalTUDecls s) else [])))"
proof (intro conjI impI)
  assume "visitorModeOK env s \<and> n \<le> length (LocalTUDecls s)"
  then show "\<exists>s' app. traverseLoop env 0 n s = Inr s' \<and>
         LocalTUDecls s' = LocalTUDecls s @ app \<and>
         traversed (trace s') = traversed (trace s) @ map addr (take n (LocalTUDecls s))"
    using traverseLoop_total [of env s n 0] by auto
next
  assume "n \<le> length (LocalTUDecls s)"
  then show "\<exists>s' app. callGraphBuildLoop env 0 n [] s = Inr (take n (LocalTUDecls s), s') \<and>
         LocalTUDecls s' = LocalTUDecls s @ app \<and>
         addedToGraph (trace s') = addedToGraph (trace s) @ map addr (take n (LocalTUDecls s))"
    using callGraphBuildLoop_total [of n s env 0 "[]"] by auto
next
  assume "\<not> hasErrorOccurred env \<and> \<not> hasFatalErrorOccurred env"
  then show "\<exists>s' app. HandleTranslationUnit env s = Inr s' \<and>
         LocalTUDecls s' = LocalTUDecls s @ app \<and>
         traversed (trace s') = traversed (trace s) @ map addr (LocalTUDecls s) \<and>
         addedToGraph (trace s') =
           addedToGraph (trace s) @ (if shouldInlineCall env then map addr (LocalTUDecls s) else [])"
    using HandleTranslationUnit_total [of env s] by blast
qed

theorem C4_snapshot_witness:
  "\<not> hasErrorOccurred ex_env \<and> \<not> hasFatalErrorOccurred ex_env
   \<and> visitorModeOK ex_env (ex_unit\<lparr>RecVisitorMode := 1\<rparr>)
   \<and> 3 \<le> length (LocalTUDecls ex_unit)
   \<and> map_sum id (map addr \<circ> LocalTUDecls) (HandleTranslationUnit ex_env ex_unit) = Inr [1, 2, 3, 4, 5]
   \<and> map_sum id (traversed \<circ> trace) (HandleTranslationUnit ex_env ex_unit) = Inr [1, 2, 3]
   \<and> map_sum id (addedToGraph \<circ> trace) (HandleTranslationUnit ex_env ex_unit) = Inr [1, 2, 3]
   \<and> map_sum id (map addr \<circ> LocalTUDecls) (traverseLoop ex_env 0 3 (ex_unit\<lparr>RecVisitorMode := 1\<rparr>))
        = Inr [1, 2, 3, 4]
   \<and> map_sum id (traversed \<circ> trace) (traverseLoop ex_env 0 3 (ex_unit\<lparr>RecVisitorMode := 1\<rparr>))
        = Inr [1, 2, 3]
   \<and> map_sum id (map addr \<circ> fst) (callGraphBuildLoop ex_env 0 3 [] ex_unit) = Inr [1, 2, 3]
   \<and> map_sum id (map addr \<circ> LocalTUDecls \<circ> snd) (callGraphBuildLoop ex_env 0 3 [] ex_unit)
        = Inr [1, 2, 3, 5]"
  using C4_snapshot_loops [of ex_env "ex_unit\<lparr>RecVisitorMode := 1\<rparr>" 3]
    C4_snapshot_loops [of ex_env ex_unit 3]
  by (simp add: model_defs ex_defs visitorModeOK_def)

section \<open>No path-sensitive checkers\<close>

text \<open>
  C6. When the checker manager has no path-sensitive checkers, a call of \<open>HandleCode\<close>,
  for any declaration, mode and inlining mode, adds no call of \<open>ActionExprEngine\<close> and no
  run of the engine to the trace and leaves the callee accumulator as it was; and the
  whole of \<open>HandleTranslationUnit\<close> returns with no such event added.
\<close>

theorem C6_no_path_sensitive_checkers:
  assumes "\<not> hasPathSensitiveCheckers env"
  shows "(HandleCode env D M IMode VC s = Inr (VC', s') \<longrightarrow>
            VC' = VC \<and> engineEvents (trace s') = engineEvents (trace s))
         \<and> (\<exists>s''. HandleTranslationUnit env s = Inr s'' \<and>
               engineEvents (trace s'') = engineEvents (trace s))"
  using assms HandleCode_no_engine [of env D M IMode VC s VC' s']
    HandleTranslationUnit_total [of env s]
  by blast

theorem C6_no_checkers_witness:
  "\<not> hasPathSensitiveCheckers (ex_env\<lparr>hasPathSensitiveCheckers := False\<rparr>)
   \<and> map_sum id (engineEvents \<circ> trace)
        (HandleTranslationUnit (ex_env\<lparr>hasPathSensitiveCheckers := False\<rparr>) ex_unit) = Inr []
   \<and> map_sum id (engineEvents \<circ> trace \<circ> snd)
        (HandleCode (ex_env\<lparr>hasPathSensitiveCheckers := False\<rparr>) ex_A AM_Path Inline_All
           (Some {}) ex_state) = Inr []
   \<and> map_sum id (handled \<circ> trace)
        (HandleTranslationUnit (ex_env\<lparr>hasPathSensitiveCheckers := False\<rparr>) ex_unit)
        = Inr [1, 2, 3, 1, 2, 3]"
  using C6_no_path_sensitive_checkers [of "ex_env\<lparr>hasPathSensitiveCheckers := False\<rparr>"
      ex_A AM_Path Inline_All "Some {}" ex_state "Some {}"
      "logEvent (CallHandleCode 1 2 Inline_All) ex_state"]
    C6_no_path_sensitive_checkers [of "ex_env\<lparr>hasPathSensitiveCheckers := False\<rparr>"
      ex_A AM_Path Inline_All "Some {}" ex_unit]
  by (simp add: model_defs ex_defs)

section \<open>Skip conditions\<close>

text \<open>
  C8. A declaration without a body, or whose mode resolves to the empty mode, makes
  \<open>HandleCode\<close> return at once: beyond the record of the call, the state and the callee
  accumulator are as they were. A declaration without a control-flow graph, or whose
  liveness analysis is not available, makes \<open>ActionExprEngine\<close> return at once in the
  same way. None of them is an error: \<open>HandleTranslationUnit\<close> always returns a state,
  in which every declaration of the store has been traversed (and added to the call
  graph when inlining is on), and the loops over the call-graph nodes and over the
  declarations of a traversal always return a state too. In the call-graph pass a node
  with one of these conditions that the policy does not skip is passed to
  \<open>HandleCode\<close>, which runs no engine, changes neither \<open>Visited\<close> nor the summaries, and
  the loop goes on with the remaining nodes; whatever conditions the nodes have, every
  node ends in \<open>VisitedAsTopLevel\<close> or is not a method and is in \<open>Visited\<close>. In a
  traversal, the visit of each declaration returns and the remaining declarations are
  visited from the state it leaves.
\<close>

theorem C8_skips_are_early_returns:
  "(\<not> hasBody D \<or> getModeForDecl env D M = AM_None \<longrightarrow>
      HandleCode env D M IMode VC s = Inr (VC, logEvent (CallHandleCode (addr D) M IMode) s))
   \<and> (getCFG env D = None \<or> \<not> RelaxedLiveVariables env D \<longrightarrow>
      ActionExprEngine env D gc IMode VC s =
        (VC, logEvent (CallActionExprEngine (addr D) gc IMode) s))
   \<and> (\<exists>s'. HandleTranslationUnit env s = Inr s' \<and>
        (\<not> hasErrorOccurred env \<and> \<not> hasFatalErrorOccurred env \<longrightarrow>
           traversed (trace s') = traversed (trace s) @ map addr (LocalTUDecls s) \<and>
           addedToGraph (trace s') =
             addedToGraph (trace s) @ (if shouldInlineCall env then map addr (LocalTUDecls s) else [])))
   \<and> (\<exists>r. callGraphLoop env Ns V VT s = Inr r)
   \<and> (visitorModeOK env s \<longrightarrow> (\<exists>s'. visitAll env Ds s = Inr s'))
   \<and> (\<not> shouldSkipFunction D V VT \<and> (\<not> hasBody D \<or> getModeForDecl env D AM_Path = AM_None) \<longrightarrow>
        (\<exists>IM. getInliningModeForFunction env D V = Inr IM \<and>
           callGraphLoop env (Some D # Ns) V VT s =
             callGraphLoop env Ns V (insert (addr D) VT)
               (logEvent (CallHandleCode (addr D) AM_Path IM)
                  (s\<lparr>NumFunctionTopLevel := NumFunctionTopLevel s + 1\<rparr>))))
   \<and> (\<not> shouldSkipFunction D V VT \<and> (getCFG env D = None \<or> \<not> RelaxedLiveVariables env D) \<longrightarrow>
        (\<exists>s2. callGraphLoop env (Some D # Ns) V VT s =
                 callGraphLoop env Ns V (insert (addr D) VT) s2 \<and>
              filter engineRun (trace s2) = filter engineRun (trace s) \<and>
              FunctionSummaries s2 = FunctionSummaries s \<and>
              handled (trace s2) = handled (trace s) @ [addr D]))
   \<and> (\<exists>V' VT' s' H. callGraphLoop env Ns V VT s = Inr (V', VT', s') \<and>
          handled (trace s') = handled (trace s) @ H \<and> VT' = VT \<union> set H \<and>
          (\<forall>B. Some B \<in> set Ns \<longrightarrow>
             addr B \<in> VT' \<or> (\<not> isa_ObjCMethodDecl B \<and> addr B \<in> V')))
   \<and> (visitorModeOK env s \<longrightarrow>
        (\<exists>s1. WalkUpFrom env D s = Inr s1 \<and> visitorModeOK env s1 \<and>
              visitAll env (D # Ds) s = visitAll env Ds s1))"
proof -
  let ?s1 = "s\<lparr>NumFunctionTopLevel := NumFunctionTopLevel s + 1\<rparr>"
  let ?acc = "if InliningMode (Opts env) = All_Inlining then None else Some {}"
  have p1: "\<not> hasBody D \<or> getModeForDecl env D M = AM_None \<longrightarrow>
      HandleCode env D M IMode VC s = Inr (VC, logEvent (CallHandleCode (addr D) M IMode) s)"
    using HandleCode_skip [of D env M IMode VC s] by blast
  have p2: "getCFG env D = None \<or> \<not> RelaxedLiveVariables env D \<longrightarrow>
      ActionExprEngine env D gc IMode VC s =
        (VC, logEvent (CallActionExprEngine (addr D) gc IMode) s)"
    using ActionExprEngine_skip [of env D gc IMode VC s] by blast
  have p3: "\<exists>s'. HandleTranslationUnit env s = Inr s' \<and>
        (\<not> hasErrorOccurred env \<and> \<not> hasFatalErrorOccurred env \<longrightarrow>
           traversed (trace s') = traversed (trace s) @ map addr (LocalTUDecls s) \<and>
           addedToGraph (trace s') =
             addedToGraph (trace s) @ (if shouldInlineCall env then map addr (LocalTUDecls s) else []))"
    using HandleTranslationUnit_total [of env s] by blast
  have p4: "\<exists>r. callGraphLoop env Ns V VT s = Inr r"
    using callGraphLoop_total [of env Ns V VT s] by blast
  have p5: "visitorModeOK env s \<longrightarrow> (\<exists>s'. visitAll env Ds s = Inr s')"
    using visitAll_total [of env s Ds] by blast
  have p6: "\<not> shouldSkipFunction D V VT \<and> (\<not> hasBody D \<or> getModeForDecl env D AM_Path = AM_None) \<longrightarrow>
        (\<exists>IM. getInliningModeForFunction env D V = Inr IM \<and>
           callGraphLoop env (Some D # Ns) V VT s =
             callGraphLoop env Ns V (insert (addr D) VT)
               (logEvent (CallHandleCode (addr D) AM_Path IM) ?s1))"
  proof
    assume h: "\<not> shouldSkipFunction D V VT \<and> (\<not> hasBody D \<or> getModeForDecl env D AM_Path = AM_None)"
    then obtain IM where im: "getInliningModeForFunction env D V = Inr IM"
      using getInliningModeForFunction_total [of D V VT env] by blast
    have hc: "HandleCode env D AM_Path IM ?acc ?s1 =
                Inr (?acc, logEvent (CallHandleCode (addr D) AM_Path IM) ?s1)"
      using h HandleCode_skip [of D env AM_Path IM ?acc ?s1] by blast
    have "callGraphLoop env (Some D # Ns) V VT s =
             callGraphLoop env Ns V (insert (addr D) VT)
               (logEvent (CallHandleCode (addr D) AM_Path IM) ?s1)"
      using h im hc by (simp add: Let_def)
    then show "\<exists>IM. getInliningModeForFunction env D V = Inr IM \<and>
           callGraphLoop env (Some D # Ns) V VT s =
             callGraphLoop env Ns V (insert (addr D) VT)
               (logEvent (CallHandleCode (addr D) AM_Path IM) ?s1)"
      using im by blast
  qed
  have p7: "\<not> shouldSkipFunction D V VT \<and> (getCFG env D = None \<or> \<not> RelaxedLiveVariables env D) \<longrightarrow>
        (\<exists>s2. callGraphLoop env (Some D # Ns) V VT s =
                 callGraphLoop env Ns V (insert (addr D) VT) s2 \<and>
              filter engineRun (trace s2) = filter engineRun (trace s) \<and>
              FunctionSummaries s2 = FunctionSummaries s \<and>
              handled (trace s2) = handled (trace s) @ [addr D])"
  proof
    assume h: "\<not> shouldSkipFunction D V VT \<and> (getCFG env D = None \<or> \<not> RelaxedLiveVariables env D)"
    then obtain IM where im: "getInliningModeForFunction env D V = Inr IM"
      using getInliningModeForFunction_total [of D V VT env] by blast
    have sk: "getCFG env D = None \<or> \<not> RelaxedLiveVariables env D" using h by simp
    obtain s2 where hc: "HandleCode env D AM_Path IM ?acc ?s1 = Inr (?acc, s2)"
      and q: "filter engineRun (trace s2) = filter engineRun (trace ?s1)"
        "FunctionSummaries s2 = FunctionSummaries ?s1"
        "handled (trace s2) = handled (trace ?s1) @ [addr D]"
      using HandleCode_engine_skipped [OF _ sk, of AM_Path IM ?acc ?s1] by auto
    have "callGraphLoop env (Some D # Ns) V VT s =
             callGraphLoop env Ns V (insert (addr D) VT) s2"
      using h im hc by (simp add: Let_def)
    then show "\<exists>s2. callGraphLoop env (Some D # Ns) V VT s =
                 callGraphLoop env Ns V (insert (addr D) VT) s2 \<and>
              filter engineRun (trace s2) = filter engineRun (trace s) \<and>
              FunctionSummaries s2 = FunctionSummaries s \<and>
              handled (trace s2) = handled (trace s) @ [addr D]"
      using q by auto
  qed
  have p8: "\<exists>V' VT' s' H. callGraphLoop env Ns V VT s = Inr (V', VT', s') \<and>
          handled (trace s') = handled (trace s) @ H \<and> VT' = VT \<union> set H \<and>
          (\<forall>B. Some B \<in> set Ns \<longrightarrow>
             addr B \<in> VT' \<or> (\<not> isa_ObjCMethodDecl B \<and> addr B \<in> V'))"
  proof -
    obtain V' VT' s' H where r: "callGraphLoop env Ns V VT s = Inr (V', VT', s')"
      and q: "handled (trace s') = handled (trace s) @ H" "VT' = VT \<union> set H"
      using callGraphLoop_total [of env Ns V VT s] by blast
    have c: "\<forall>B. Some B \<in> set Ns \<longrightarrow>
             addr B \<in> VT' \<or> (\<not> isa_ObjCMethodDecl B \<and> addr B \<in> V')"
      using callGraphLoop_complete [OF r] by blast
    show ?thesis
      using r q c
      by (intro exI [of _ V'] exI [of _ VT'] exI [of _ s'] exI [of _ H] conjI)
  qed
  have p9: "visitorModeOK env s \<longrightarrow>
        (\<exists>s1. WalkUpFrom env D s = Inr s1 \<and> visitorModeOK env s1 \<and>
              visitAll env (D # Ds) s = visitAll env Ds s1)"
  proof
    assume ok: "visitorModeOK env s"
    obtain s1 where w: "WalkUpFrom env D s = Inr s1" and f: "frame env s s1"
      using WalkUpFrom_total [OF ok, of D] by blast
    have "visitAll env (D # Ds) s = visitAll env Ds s1" using w by simp
    then show "\<exists>s1. WalkUpFrom env D s = Inr s1 \<and> visitorModeOK env s1 \<and>
              visitAll env (D # Ds) s = visitAll env Ds s1"
      using w frame_visitorModeOK [OF f ok] by blast
  qed
  show ?thesis using p1 p2 p3 p4 p5 p6 p7 p8 p9 by (intro conjI)
qed

theorem C8_skips_witness:
  "\<not> hasBody ex_deleted \<and> getModeForDecl ex_env_skips ex_sys 3 = AM_None
   \<and> getCFG ex_env_skips ex_B = None \<and> \<not> RelaxedLiveVariables ex_env_skips ex_C
   \<and> visitorModeOK ex_env_skips (ex_state\<lparr>RecVisitorMode := 3\<rparr>)
   \<and> map_sum id (filter engineRun \<circ> trace)
        (HandleTranslationUnit ex_env_skips
           (ex_state\<lparr>LocalTUDecls := [ex_deleted, ex_sys, ex_B, ex_C, ex_A]\<rparr>))
        = Inr [ExecuteWorkList 1 False Inline_None, ExecuteWorkList 1 True Inline_None]
   \<and> map_sum id (handled \<circ> trace)
        (HandleTranslationUnit ex_env_skips
           (ex_state\<lparr>LocalTUDecls := [ex_deleted, ex_sys, ex_B, ex_C, ex_A]\<rparr>))
        = Inr [6, 10, 2, 3, 1]
   \<and> shouldInlineCall ex_env_all_skips
   \<and> getCFG ex_env_all_skips ex_B = None \<and> \<not> RelaxedLiveVariables ex_env_all_skips ex_C
   \<and> \<not> shouldSkipFunction ex_B {} {6, 10}
   \<and> map_sum id (filter engineRun \<circ> trace \<circ> snd \<circ> snd)
        (callGraphLoop ex_env_all_skips
           [None, Some ex_deleted, Some ex_sys, Some ex_B, Some ex_C, Some ex_A] {} {} ex_state)
        = Inr [ExecuteWorkList 1 False Inline_All, ExecuteWorkList 1 True Inline_All]
   \<and> map_sum id (handled \<circ> trace \<circ> snd \<circ> snd)
        (callGraphLoop ex_env_all_skips
           [None, Some ex_deleted, Some ex_sys, Some ex_B, Some ex_C, Some ex_A] {} {} ex_state)
        = Inr [6, 10, 2, 3, 1]
   \<and> map_sum id (fst \<circ> snd)
        (callGraphLoop ex_env_all_skips
           [None, Some ex_deleted, Some ex_sys, Some ex_B, Some ex_C, Some ex_A] {} {} ex_state)
        = Inr {1, 3, 2, 10, 6}
   \<and> map_sum id (filter engineRun \<circ> trace)
        (HandleTranslationUnit ex_env_all_skips
           (ex_state\<lparr>LocalTUDecls := [ex_deleted, ex_sys, ex_B, ex_C, ex_A]\<rparr>))
        = Inr [ExecuteWorkList 1 False Inline_All, ExecuteWorkList 1 True Inline_All]"
  using C8_skips_are_early_returns [where D = ex_deleted and env = ex_env_skips and M = 3 and IMode = Inline_None
      and VC = None and s = "ex_state\<lparr>LocalTUDecls := [ex_deleted, ex_sys, ex_B, ex_C, ex_A]\<rparr>"
      and gc = False and Ns = "[]" and V = "{}" and VT = "{}" and Ds = "[]"]
    C8_skips_are_early_returns [where D = ex_sys and env = ex_env_skips and M = 3 and IMode = Inline_None
      and VC = None and s = "ex_state\<lparr>RecVisitorMode := 3\<rparr>"
      and gc = False and Ns = "[]" and V = "{}" and VT = "{}" and Ds = "[ex_B]"]
    C8_skips_are_early_returns [where D = ex_B and env = ex_env_all_skips and M = 2 and IMode = Inline_All
      and VC = None and s = ex_state
      and gc = False and Ns = "[Some ex_C, Some ex_A]" and V = "{}" and VT = "{6, 10}" and Ds = "[]"]
  by (simp add: model_defs ex_defs visitorModeOK_def)

end
